theory Spec2Isabelle
  imports Main "HOL-Library.Word" "HOL-Library.Sublist"
begin

unbundle bit_operations_syntax

section \<open>Library functions the backup package calls\<close>

text \<open>
  Go strings are byte sequences holding UTF-8 text; they are modelled as \<open>string\<close>
  (a list of 8-bit characters). The functions of this section are the parts of Go's
  standard library that \<open>backup.go\<close> calls on its configuration lines, written out from
  their documented behaviour.
\<close>

subsection \<open>strings.TrimSpace, strings.TrimSuffix, strings.Split\<close>

text \<open>
  The UTF-8 encodings of the runes \<open>unicode.IsSpace\<close> accepts: the six ASCII ones, U+0085,
  U+00A0, U+1680, U+2000 to U+200A, U+2028, U+2029, U+202F, U+205F and U+3000.
\<close>

definition spaceRunes :: "string list" where
  "spaceRunes =
     [[CHR 0x09], [CHR 0x0A], [CHR 0x0B], [CHR 0x0C], [CHR 0x0D], [CHR 0x20],
      [CHR 0xC2, CHR 0x85], [CHR 0xC2, CHR 0xA0],
      [CHR 0xE1, CHR 0x9A, CHR 0x80],
      [CHR 0xE2, CHR 0x80, CHR 0x80], [CHR 0xE2, CHR 0x80, CHR 0x81],
      [CHR 0xE2, CHR 0x80, CHR 0x82], [CHR 0xE2, CHR 0x80, CHR 0x83],
      [CHR 0xE2, CHR 0x80, CHR 0x84], [CHR 0xE2, CHR 0x80, CHR 0x85],
      [CHR 0xE2, CHR 0x80, CHR 0x86], [CHR 0xE2, CHR 0x80, CHR 0x87],
      [CHR 0xE2, CHR 0x80, CHR 0x88], [CHR 0xE2, CHR 0x80, CHR 0x89],
      [CHR 0xE2, CHR 0x80, CHR 0x8A],
      [CHR 0xE2, CHR 0x80, CHR 0xA8], [CHR 0xE2, CHR 0x80, CHR 0xA9],
      [CHR 0xE2, CHR 0x80, CHR 0xAF],
      [CHR 0xE2, CHR 0x81, CHR 0x9F],
      [CHR 0xE3, CHR 0x80, CHR 0x80]]"

text \<open>The number of bytes of the white-space rune a string starts (ends) with; 0 if none.\<close>

definition leadingSpace :: "string \<Rightarrow> nat" where
  "leadingSpace s = (case find (\<lambda>r. prefix r s) spaceRunes of None \<Rightarrow> 0 | Some r \<Rightarrow> length r)"

definition trailingSpace :: "string \<Rightarrow> nat" where
  "trailingSpace s = (case find (\<lambda>r. suffix r s) spaceRunes of None \<Rightarrow> 0 | Some r \<Rightarrow> length r)"

function trimLeft :: "string \<Rightarrow> string" where
  "trimLeft s = (if leadingSpace s = 0 then s else trimLeft (drop (leadingSpace s) s))"
  by pat_completeness auto
termination
proof (relation "measure length")
  show "wf (measure length)" by simp
next
  fix s :: string
  assume nz: "leadingSpace s \<noteq> 0"
  have "s \<noteq> []"
  proof
    assume "s = []"
    then have "leadingSpace s = 0" by (simp add: leadingSpace_def spaceRunes_def)
    with nz show False by simp
  qed
  with nz show "(drop (leadingSpace s) s, s) \<in> measure length" by simp
qed

function trimRight :: "string \<Rightarrow> string" where
  "trimRight s =
     (if trailingSpace s = 0 then s else trimRight (take (length s - trailingSpace s) s))"
  by pat_completeness auto
termination
proof (relation "measure length")
  show "wf (measure length)" by simp
next
  fix s :: string
  assume nz: "trailingSpace s \<noteq> 0"
  have "s \<noteq> []"
  proof
    assume "s = []"
    then have "trailingSpace s = 0" by (simp add: trailingSpace_def spaceRunes_def)
    with nz show False by simp
  qed
  with nz show "(take (length s - trailingSpace s) s, s) \<in> measure length" by simp
qed

declare trimLeft.simps [simp del] trimRight.simps [simp del]

definition TrimSpace :: "string \<Rightarrow> string" where
  "TrimSpace s = trimRight (trimLeft s)"

definition TrimSuffix :: "string \<Rightarrow> string \<Rightarrow> string" where
  "TrimSuffix s suf = (if suffix suf s then take (length s - length suf) s else s)"

text \<open>\<open>strings.Split(s, ",,")\<close>: the pieces between the occurrences of the separator, found
  from the left and not overlapping; the empty string splits into one empty piece.\<close>

fun SplitCommas :: "string \<Rightarrow> string list" where
  "SplitCommas [] = [[]]"
| "SplitCommas [c] = [[c]]"
| "SplitCommas (c # d # cs) =
     (if c = CHR '','' \<and> d = CHR '','' then [] # SplitCommas cs
      else (case SplitCommas (d # cs) of [] \<Rightarrow> [[c]] | p # ps \<Rightarrow> (c # p) # ps))"

subsection \<open>strconv.Atoi and strconv.ParseInt\<close>

definition isDigit :: "char \<Rightarrow> bool" where
  "isDigit c = (48 \<le> (of_char c :: nat) \<and> (of_char c :: nat) \<le> 57)"

definition digitsValue :: "string \<Rightarrow> int" where
  "digitsValue ds = foldl (\<lambda>n c. n * 10 + (int (of_char c) - 48)) 0 ds"

text \<open>\<open>strconv.ParseInt(s, 10, 64)\<close>: an optional sign and at least one decimal digit,
  nothing else; a value outside the 64-bit range is an error too. \<open>strconv.Atoi\<close> is the
  same function where \<open>int\<close> has 64 bits.\<close>

definition ParseInt :: "string \<Rightarrow> int option" where
  "ParseInt s =
     (let neg = (s \<noteq> [] \<and> hd s = CHR ''-'');
          ds = (if s \<noteq> [] \<and> (hd s = CHR ''-'' \<or> hd s = CHR ''+'') then tl s else s);
          v = (if neg then - digitsValue ds else digitsValue ds)
      in if ds = [] \<or> \<not> list_all isDigit ds then None
         else if - (2 ^ 63) \<le> v \<and> v < 2 ^ 63 then Some v
         else None)"

definition Atoi :: "string \<Rightarrow> int option" where
  "Atoi s = ParseInt s"

subsection \<open>The regular expressions of the configuration lines\<close>

text \<open>
  The six package-level expressions are fixed, so each is written as the string function
  it denotes. In Go's syntax \<open>\s\<close> is one of tab, newline, form feed, carriage return and
  space, \<open>.\<close> is any character but newline, and both stars are greedy.
\<close>

definition reSpace :: "char \<Rightarrow> bool" where
  "reSpace c = (c = CHR 0x09 \<or> c = CHR 0x0A \<or> c = CHR 0x0C \<or> c = CHR 0x0D \<or> c = CHR 0x20)"

definition notNewline :: "char \<Rightarrow> bool" where
  "notNewline c = (c \<noteq> CHR 0x0A)"

definition stripPrefix :: "string \<Rightarrow> string \<Rightarrow> string option" where
  "stripPrefix p s = (if prefix p s then Some (drop (length p) s) else None)"

text \<open>\<open>^#\<close>\<close>

definition commentRex :: "string \<Rightarrow> bool" where
  "commentRex line = prefix ''#'' line"

text \<open>\<open>\s*(.*)\<close> after a prefix: the group is what follows the white space, up to the first
  newline.\<close>

definition spaceThenGroup :: "string \<Rightarrow> string" where
  "spaceThenGroup r = takeWhile notNewline (dropWhile reSpace r)"

text \<open>\<open>\s*(.*)\s*$\<close> after a prefix: it matches only if nothing but white space follows the
  group; the greedy group keeps its own trailing blanks.\<close>

definition spaceThenGroupToEnd :: "string \<Rightarrow> string option" where
  "spaceThenGroupToEnd r =
     (let r' = dropWhile reSpace r
      in if list_all reSpace (dropWhile notNewline r') then Some (takeWhile notNewline r')
         else None)"

text \<open>\<open>^=>\s*(.*)\<close>, \<open>^!@\s*(.*)\s*$\<close>, \<open>^!>\s*(.*)\s*$\<close>, \<open>^!\s*(.*)\<close> and
  \<open>^!\+\s*(.*)\<close>: \<open>FindSubmatch\<close> gives the group, or nothing.\<close>

definition targetRex :: "string \<Rightarrow> string option" where
  "targetRex line = map_option spaceThenGroup (stripPrefix ''=>'' line)"

definition maxAgeRex :: "string \<Rightarrow> string option" where
  "maxAgeRex line = Option.bind (stripPrefix ''!@'' line) spaceThenGroupToEnd"

definition maxSizeRex :: "string \<Rightarrow> string option" where
  "maxSizeRex line = Option.bind (stripPrefix ''!>'' line) spaceThenGroupToEnd"

definition excludeRex :: "string \<Rightarrow> string option" where
  "excludeRex line = map_option spaceThenGroup (stripPrefix ''!'' line)"

definition extendExcludeRex :: "string \<Rightarrow> string option" where
  "extendExcludeRex line = map_option spaceThenGroup (stripPrefix ''!+'' line)"

subsection \<open>filepath.Clean and filepath.Dir on Unix\<close>

fun splitSlash :: "string \<Rightarrow> string list" where
  "splitSlash [] = [[]]"
| "splitSlash (c # cs) =
     (if c = CHR ''/'' then [] # splitSlash cs
      else (case splitSlash cs of [] \<Rightarrow> [[c]] | p # ps \<Rightarrow> (c # p) # ps))"

text \<open>The elements that remain, the last one first in \<open>acc\<close>: empty elements and \<open>.\<close> go,
  \<open>..\<close> removes the element before it, is dropped at the root, and stays at the start of
  a relative path.\<close>

fun cleanElements :: "bool \<Rightarrow> string list \<Rightarrow> string list \<Rightarrow> string list" where
  "cleanElements rooted [] acc = rev acc"
| "cleanElements rooted (e # es) acc =
     (if e = [] \<or> e = ''.'' then cleanElements rooted es acc
      else if e = ''..'' then
        (case acc of
           [] \<Rightarrow> cleanElements rooted es (if rooted then [] else [''..''])
         | a # as \<Rightarrow> cleanElements rooted es (if a = ''..'' then e # acc else as))
      else cleanElements rooted es (e # acc))"

fun joinSlash :: "string list \<Rightarrow> string" where
  "joinSlash [] = []"
| "joinSlash [e] = e"
| "joinSlash (e # es) = e @ CHR ''/'' # joinSlash es"

definition unixClean :: "string \<Rightarrow> string" where
  "unixClean p =
     (let rooted = prefix ''/'' p;
          body = joinSlash (cleanElements rooted (splitSlash p) [])
      in if rooted then CHR ''/'' # body else if body = [] then ''.'' else body)"

text \<open>\<open>filepath.Dir\<close>: all but the last element, cleaned.\<close>

definition unixDir :: "string \<Rightarrow> string" where
  "unixDir p = unixClean (rev (dropWhile (\<lambda>c. c \<noteq> CHR ''/'') (rev p)))"

section \<open>The data of a run\<close>

text \<open>
  \<open>fs.FileInfo\<close> as the engine reads it: the size, the mode bits and the modification
  time, an instant counted from Go's zero \<open>time.Time\<close>, which is the initial \<open>startDate\<close>.
\<close>

type_synonym FileMode = "32 word"

record FileInfo =
  Size :: int
  Mode :: FileMode
  ModTime :: int

definition ModeDir :: FileMode where
  "ModeDir = 0x80000000"

definition ModeSymlink :: FileMode where
  "ModeSymlink = 0x8000000"

definition IsDir :: "FileInfo \<Rightarrow> bool" where
  "IsDir info = (Mode info AND ModeDir \<noteq> 0)"

text \<open>
  What \<open>filepath.WalkDir\<close> finds below a root, in the order it reports it. A file entry
  carries the result of its \<open>d.Info()\<close> (\<open>None\<close> where that fails); a directory carries
  whether reading it failed (then WalkDir calls the callback a second time for it, and
  goes on with the entries it could read) and its entries.
\<close>

datatype node =
  FileNode string "FileInfo option"
| DirNode string bool "node list"

text \<open>The calls of the three function slots that change the filesystem.\<close>

datatype fscall =
  Chmod string FileMode
| MkdirAll string FileMode
| Copy string string FileInfo

datatype panicValue = TooManyErrors | DivideByZero

text \<open>
  What is written to \<open>out\<close>, one constructor per print statement of \<open>backup.go\<close>; the
  arguments are the values printed.
\<close>

datatype printed =
  OutTarget string
| OutWarn string
| OutSince int
| OutMaxSize int
| OutExtendExclude string
| OutExclude string
| OutFatal string
| OutSource string
| OutDot
| OutNewline
| OutCounts int int int
| OutFile string
| OutRecovered panicValue
| OutErrors nat
| OutMessage string

record backupCounts =
  dir :: int
  files :: int
  copied :: int

text \<open>
  \<open>backupContext\<close>, with the two things the function slots act on and leave behind: the
  filesystem \<open>fsys\<close> (of any type \<open>'w\<close>) and the list of the mutating calls made so far.
  \<open>'r\<close> is the type of a compiled regular expression.
\<close>

record ('r, 'w) backupContext =
  out :: "printed list"
  dryRun :: bool
  targetPath :: string
  startDate :: int
  maxSize :: int
  exclude :: "'r list"
  count :: backupCounts
  msgs :: "string list"
  fsys :: 'w
  calls :: "fscall list"

text \<open>
  The package-level variables and the platform: the constants of the \<open>var\<close> block that the
  tests change, the function slots of \<open>dependency.go\<close> (each takes the filesystem and
  gives the new one), \<open>regexp.Compile\<close> and \<open>MatchString\<close>, the clock (\<open>since w n\<close> is local
  midnight of the day \<open>n\<close> days before now), and the two \<open>filepath\<close> functions on Windows.
  \<open>chmod\<close>'s error result is left out: \<open>handleFile\<close> discards it.
\<close>

record ('r, 'w) platform =
  isWin :: bool
  destDirPerm :: FileMode
  printDotFileCount :: int
  maxErrors :: int
  Compile :: "string \<Rightarrow> 'r option"
  MatchString :: "'r \<Rightarrow> string \<Rightarrow> bool"
  since :: "'w \<Rightarrow> int \<Rightarrow> int"
  winVolumeName :: "string \<Rightarrow> string"
  winDir :: "string \<Rightarrow> string"
  stat :: "'w \<Rightarrow> string \<Rightarrow> FileInfo option"
  walkDir :: "'w \<Rightarrow> string \<Rightarrow> node"
  chmod :: "'w \<Rightarrow> string \<Rightarrow> FileMode \<Rightarrow> 'w"
  mkdirAll :: "'w \<Rightarrow> string \<Rightarrow> FileMode \<Rightarrow> bool \<times> 'w"
  copy :: "'w \<Rightarrow> string \<Rightarrow> string \<Rightarrow> FileInfo \<Rightarrow> string option \<times> 'w"

definition Separator :: "('r, 'w) platform \<Rightarrow> char" where
  "Separator pf = (if isWin pf then CHR 0x5C else CHR ''/'')"

definition VolumeName :: "('r, 'w) platform \<Rightarrow> string \<Rightarrow> string" where
  "VolumeName pf path = (if isWin pf then winVolumeName pf path else [])"

definition Dir :: "('r, 'w) platform \<Rightarrow> string \<Rightarrow> string" where
  "Dir pf path = (if isWin pf then winDir pf path else unixDir path)"

text \<open>
  A function of the package either returns, with a value and the context as it left it,
  or panics, with the context as it was then (the deferred function of \<open>Backup\<close> reads
  \<open>ctx.msgs\<close> after a panic).
\<close>

datatype ('a, 'c) outcome =
  Returns 'a 'c
| Panics panicValue 'c

fun ctxOf :: "('a, 'c) outcome \<Rightarrow> 'c" where
  "ctxOf (Returns v c) = c"
| "ctxOf (Panics p c) = c"

definition print :: "printed \<Rightarrow> ('r, 'w) backupContext \<Rightarrow> ('r, 'w) backupContext" where
  "print x ctx = ctx\<lparr>out := out ctx @ [x]\<rparr>"

section \<open>backup.go\<close>

subsection \<open>msg\<close>

definition msg ::
  "('r, 'w) platform \<Rightarrow> ('r, 'w) backupContext \<Rightarrow> string \<Rightarrow> (unit, ('r, 'w) backupContext) outcome"
where
  "msg pf ctx m =
     (let ctx' = ctx\<lparr>msgs := msgs ctx @ [m]\<rparr>
      in if maxErrors pf \<le> int (length (msgs ctx')) then Panics TooManyErrors ctx'
         else Returns () ctx')"

subsection \<open>parseExclude\<close>

text \<open>The loop over the parts.\<close>

fun excludeParts ::
  "('r, 'w) platform \<Rightarrow> string list \<Rightarrow> ('r, 'w) backupContext
    \<Rightarrow> (unit, ('r, 'w) backupContext) outcome"
where
  "excludeParts pf [] ctx = Returns () ctx"
| "excludeParts pf (part # parts) ctx =
     (if part = [] then excludeParts pf parts ctx
      else
        (case Compile pf part of
           None \<Rightarrow>
             (case msg pf ctx (''Error in exlude regexp: '' @ part) of
                Panics p ctx' \<Rightarrow> Panics p ctx'
              | Returns _ ctx' \<Rightarrow> excludeParts pf parts ctx')
         | Some rex \<Rightarrow> excludeParts pf parts (ctx\<lparr>exclude := exclude ctx @ [rex]\<rparr>)))"

definition parseExclude ::
  "('r, 'w) platform \<Rightarrow> ('r, 'w) backupContext \<Rightarrow> string \<Rightarrow> bool
    \<Rightarrow> (unit, ('r, 'w) backupContext) outcome"
where
  "parseExclude pf ctx arg extend' =
     excludeParts pf (SplitCommas (TrimSpace arg))
       (if extend' then ctx else ctx\<lparr>exclude := []\<rparr>)"

subsection \<open>processNonPathLine\<close>

definition processNonPathLine ::
  "('r, 'w) platform \<Rightarrow> ('r, 'w) backupContext \<Rightarrow> string
    \<Rightarrow> (bool, ('r, 'w) backupContext) outcome"
where
  "processNonPathLine pf ctx line =
     (if line = [] \<or> commentRex line then Returns True ctx
      else
        (case targetRex line of
           Some res \<Rightarrow>
             (let ctx' = ctx\<lparr>targetPath := TrimSuffix res [Separator pf]\<rparr>
              in Returns True (print (OutTarget (targetPath ctx')) ctx'))
         | None \<Rightarrow>
        (case maxAgeRex line of
           Some res \<Rightarrow>
             (case Atoi res of
                None \<Rightarrow> Returns True (print (OutWarn line) ctx)
              | Some days \<Rightarrow>
                  (let ctx' = ctx\<lparr>startDate := since pf (fsys ctx) days\<rparr>
                   in Returns True (print (OutSince (startDate ctx')) ctx')))
         | None \<Rightarrow>
        (case maxSizeRex line of
           Some res \<Rightarrow>
             (case ParseInt res of
                None \<Rightarrow> Returns True (print (OutWarn line) ctx)
              | Some n \<Rightarrow>
                  (let ctx' = ctx\<lparr>maxSize := n\<rparr>
                   in Returns True (print (OutMaxSize (maxSize ctx')) ctx')))
         | None \<Rightarrow>
        (case extendExcludeRex line of
           Some res \<Rightarrow>
             (case parseExclude pf ctx res True of
                Panics p ctx' \<Rightarrow> Panics p ctx'
              | Returns _ ctx' \<Rightarrow> Returns True (print (OutExtendExclude res) ctx'))
         | None \<Rightarrow>
        (case excludeRex line of
           Some res \<Rightarrow>
             (case parseExclude pf ctx res False of
                Panics p ctx' \<Rightarrow> Panics p ctx'
              | Returns _ ctx' \<Rightarrow> Returns True (print (OutExclude res) ctx'))
         | None \<Rightarrow> Returns False ctx))))))"

subsection \<open>handleFile\<close>

text \<open>A call of a function slot: the filesystem changes and the call is noted.\<close>

definition callChmod ::
  "('r, 'w) platform \<Rightarrow> ('r, 'w) backupContext \<Rightarrow> string \<Rightarrow> FileMode \<Rightarrow> ('r, 'w) backupContext"
where
  "callChmod pf ctx name perm =
     ctx\<lparr>fsys := chmod pf (fsys ctx) name perm, calls := calls ctx @ [Chmod name perm]\<rparr>"

definition callMkdirAll ::
  "('r, 'w) platform \<Rightarrow> ('r, 'w) backupContext \<Rightarrow> string \<Rightarrow> FileMode
    \<Rightarrow> bool \<times> ('r, 'w) backupContext"
where
  "callMkdirAll pf ctx path perm =
     (fst (mkdirAll pf (fsys ctx) path perm),
      ctx\<lparr>fsys := snd (mkdirAll pf (fsys ctx) path perm),
          calls := calls ctx @ [MkdirAll path perm]\<rparr>)"

definition callCopy ::
  "('r, 'w) platform \<Rightarrow> ('r, 'w) backupContext \<Rightarrow> string \<Rightarrow> string \<Rightarrow> FileInfo
    \<Rightarrow> string option \<times> ('r, 'w) backupContext"
where
  "callCopy pf ctx src dest srcInfo =
     (fst (copy pf (fsys ctx) src dest srcInfo),
      ctx\<lparr>fsys := snd (copy pf (fsys ctx) src dest srcInfo),
          calls := calls ctx @ [Copy src dest srcInfo]\<rparr>)"

definition incFiles :: "('r, 'w) backupContext \<Rightarrow> ('r, 'w) backupContext" where
  "incFiles ctx = ctx\<lparr>count := (count ctx)\<lparr>files := files (count ctx) + 1\<rparr>\<rparr>"

definition incDir :: "('r, 'w) backupContext \<Rightarrow> ('r, 'w) backupContext" where
  "incDir ctx = ctx\<lparr>count := (count ctx)\<lparr>dir := dir (count ctx) + 1\<rparr>\<rparr>"

definition incCopied :: "('r, 'w) backupContext \<Rightarrow> ('r, 'w) backupContext" where
  "incCopied ctx = ctx\<lparr>count := (count ctx)\<lparr>copied := copied (count ctx) + 1\<rparr>\<rparr>"

text \<open>\<open>ctx.targetPath + srcPath[len(vol):]\<close>\<close>

definition destPathOf :: "('r, 'w) platform \<Rightarrow> string \<Rightarrow> string \<Rightarrow> string" where
  "destPathOf pf target srcPath = target @ drop (length (VolumeName pf srcPath)) srcPath"

text \<open>The end of \<open>handleFile\<close>, from \<open>if ctx.dryRun\<close> on: both branches of the examination
  of the destination come here.\<close>

definition copyOrReport ::
  "('r, 'w) platform \<Rightarrow> ('r, 'w) backupContext \<Rightarrow> string \<Rightarrow> string \<Rightarrow> FileInfo
    \<Rightarrow> (unit, ('r, 'w) backupContext) outcome"
where
  "copyOrReport pf ctx srcPath destPath srcInfo =
     (if dryRun ctx then Returns () (incCopied (print (OutFile srcPath) ctx))
      else
        (case callCopy pf ctx srcPath destPath srcInfo of
           (Some err, ctx') \<Rightarrow> msg pf ctx' err
         | (None, ctx') \<Rightarrow> Returns () (incCopied ctx')))"

text \<open>
  The filters of \<open>handleFile\<close>, in its order: a symbolic link, a file larger than
  \<open>maxSize\<close>, one modified before \<open>startDate\<close>, one whose path matches an exclude pattern.
\<close>

definition filtered ::
  "('r, 'w) platform \<Rightarrow> ('r, 'w) backupContext \<Rightarrow> string \<Rightarrow> FileInfo \<Rightarrow> bool"
where
  "filtered pf ctx srcPath srcInfo =
     (if Mode srcInfo AND ModeSymlink \<noteq> 0 then True
      else if maxSize ctx < Size srcInfo then True
      else if ModTime srcInfo < startDate ctx then True
      else list_ex (\<lambda>rex. MatchString pf rex srcPath) (exclude ctx))"

text \<open>
  The remainder \<open>files % printDotFileCount\<close> is only compared with 0, where Go's truncated
  and HOL's floored remainder agree; a zero \<open>printDotFileCount\<close> is Go's run-time panic.
  \<open>0x80\<close> is the octal \<open>0200\<close>.
\<close>

definition handleFile ::
  "('r, 'w) platform \<Rightarrow> ('r, 'w) backupContext \<Rightarrow> string \<Rightarrow> FileInfo
    \<Rightarrow> (unit, ('r, 'w) backupContext) outcome"
where
  "handleFile pf ctx0 srcPath srcInfo =
     (let ctx1 = incFiles ctx0
      in if \<not> dryRun ctx1 \<and> printDotFileCount pf = 0 then Panics DivideByZero ctx1
         else
           (let ctx = (if \<not> dryRun ctx1 \<and> files (count ctx1) mod printDotFileCount pf = 0
                       then print OutDot ctx1 else ctx1)
            in if filtered pf ctx srcPath srcInfo then Returns () ctx
               else
                 (let destPath = destPathOf pf (targetPath ctx) srcPath
                  in case stat pf (fsys ctx) destPath of
                       Some destInfo \<Rightarrow>
                         if \<not> ModTime destInfo < ModTime srcInfo then Returns () ctx
                         else copyOrReport pf
                                (if isWin pf \<and> Mode destInfo AND 0x80 \<noteq> 0
                                 then callChmod pf ctx destPath (destDirPerm pf) else ctx)
                                srcPath destPath srcInfo
                     | None \<Rightarrow>
                         if \<not> dryRun ctx then
                           (case callMkdirAll pf ctx (Dir pf destPath) (destDirPerm pf) of
                              (True, ctx') \<Rightarrow>
                                msg pf ctx' (''Cannot create dirs for: '' @ destPath)
                            | (False, ctx') \<Rightarrow> copyOrReport pf ctx' srcPath destPath srcInfo)
                         else copyOrReport pf ctx srcPath destPath srcInfo)))"

subsection \<open>handleDir\<close>

datatype walkControl = Continue | SkipDir

text \<open>The callback of \<open>handleDir\<close>, for an entry that is a directory or not, with the result
  of its \<open>d.Info()\<close>.\<close>

definition excluded ::
  "('r, 'w) platform \<Rightarrow> ('r, 'w) backupContext \<Rightarrow> string \<Rightarrow> bool"
where
  "excluded pf ctx path = list_ex (\<lambda>rex. MatchString pf rex (path @ [Separator pf])) (exclude ctx)"

definition walkCallback ::
  "('r, 'w) platform \<Rightarrow> ('r, 'w) backupContext \<Rightarrow> string \<Rightarrow> bool \<Rightarrow> FileInfo option
    \<Rightarrow> (walkControl, ('r, 'w) backupContext) outcome"
where
  "walkCallback pf ctx path isDirectory info =
     (if isDirectory then
        (if excluded pf ctx path then Returns SkipDir ctx else Returns Continue (incDir ctx))
      else
        (case info of
           None \<Rightarrow> Returns Continue ctx
         | Some i \<Rightarrow>
             (case handleFile pf ctx path i of
                Panics p ctx' \<Rightarrow> Panics p ctx'
              | Returns _ ctx' \<Rightarrow> Returns Continue ctx')))"

text \<open>
  \<open>filepath.WalkDir\<close> with that callback: the callback first, then the entries of a
  directory unless the callback said \<open>SkipDir\<close>; a panic of the callback ends the walk.
  The callback answers \<open>nil\<close> for every entry that is not a directory.
\<close>

fun walkNode ::
    "('r, 'w) platform \<Rightarrow> node \<Rightarrow> ('r, 'w) backupContext \<Rightarrow> (unit, ('r, 'w) backupContext) outcome"
  and walkNodes ::
    "('r, 'w) platform \<Rightarrow> node list \<Rightarrow> ('r, 'w) backupContext
      \<Rightarrow> (unit, ('r, 'w) backupContext) outcome"
where
  "walkNode pf (FileNode path info) ctx =
     (case walkCallback pf ctx path False info of
        Panics p ctx' \<Rightarrow> Panics p ctx'
      | Returns _ ctx' \<Rightarrow> Returns () ctx')"
| "walkNode pf (DirNode path readErr entries) ctx =
     (case walkCallback pf ctx path True None of
        Panics p ctx' \<Rightarrow> Panics p ctx'
      | Returns SkipDir ctx' \<Rightarrow> Returns () ctx'
      | Returns Continue ctx' \<Rightarrow>
          (if readErr then
             (case walkCallback pf ctx' path True None of
                Panics p ctx'' \<Rightarrow> Panics p ctx''
              | Returns SkipDir ctx'' \<Rightarrow> Returns () ctx''
              | Returns Continue ctx'' \<Rightarrow> walkNodes pf entries ctx'')
           else walkNodes pf entries ctx'))"
| "walkNodes pf [] ctx = Returns () ctx"
| "walkNodes pf (n # ns) ctx =
     (case walkNode pf n ctx of
        Panics p ctx' \<Rightarrow> Panics p ctx'
      | Returns _ ctx' \<Rightarrow> walkNodes pf ns ctx')"

definition handleDir ::
  "('r, 'w) platform \<Rightarrow> ('r, 'w) backupContext \<Rightarrow> string
    \<Rightarrow> (unit, ('r, 'w) backupContext) outcome"
where
  "handleDir pf ctx path =
     (let ctx0 = ctx\<lparr>count := \<lparr>dir = 0, files = 0, copied = 0\<rparr>\<rparr>
      in case walkNode pf (walkDir pf (fsys ctx0) path) ctx0 of
           Panics p ctx' \<Rightarrow> Panics p ctx'
         | Returns _ ctx' \<Rightarrow>
             (let ctx'' = (if printDotFileCount pf \<le> files (count ctx')
                           then print OutNewline ctx' else ctx')
              in Returns ()
                   (print (OutCounts (dir (count ctx'')) (files (count ctx''))
                             (copied (count ctx''))) ctx'')))"

subsection \<open>Backup\<close>

datatype backupError = TargetPathMustBeSpecified | NErrors nat

definition errText :: string where
  "errText = ''target path must be specified before any source paths''"

text \<open>The loop over the configuration: what it returns, or the panic that leaves it.\<close>

fun configLoop ::
  "('r, 'w) platform \<Rightarrow> string list \<Rightarrow> ('r, 'w) backupContext
    \<Rightarrow> (backupError option, ('r, 'w) backupContext) outcome"
where
  "configLoop pf [] ctx = Returns None ctx"
| "configLoop pf (l # ls) ctx =
     (let line = TrimSpace l
      in case processNonPathLine pf ctx line of
           Panics p ctx' \<Rightarrow> Panics p ctx'
         | Returns True ctx' \<Rightarrow> configLoop pf ls ctx'
         | Returns False ctx' \<Rightarrow>
             if targetPath ctx' = [] then
               Returns (Some TargetPathMustBeSpecified) (print (OutFatal errText) ctx')
             else
               (case stat pf (fsys ctx') line of
                  None \<Rightarrow>
                    (case msg pf ctx' (''Cannot stat, skipping: '' @ line) of
                       Panics p ctx'' \<Rightarrow> Panics p ctx''
                     | Returns _ ctx'' \<Rightarrow> configLoop pf ls ctx'')
                | Some info \<Rightarrow>
                    (case (if IsDir info then handleDir pf (print (OutSource line) ctx') line
                           else handleFile pf (print (OutSource line) ctx') line info) of
                       Panics p ctx'' \<Rightarrow> Panics p ctx''
                     | Returns _ ctx'' \<Rightarrow> configLoop pf ls ctx'')))"

text \<open>
  The deferred function: it prints a recovered panic, and when messages were recorded it
  prints them and sets the result \<open>ev\<close> to their number, whatever \<open>ev\<close> was.
\<close>

definition deferred ::
  "(backupError option, ('r, 'w) backupContext) outcome
    \<Rightarrow> backupError option \<times> ('r, 'w) backupContext"
where
  "deferred res =
     (let ev = (case res of Returns e _ \<Rightarrow> e | Panics _ _ \<Rightarrow> None);
          ctx = (case res of Returns _ c \<Rightarrow> c | Panics r c \<Rightarrow> print (OutRecovered r) c)
      in if msgs ctx \<noteq> [] then
           (Some (NErrors (length (msgs ctx))),
            ctx\<lparr>out := out ctx @ OutErrors (length (msgs ctx)) # map OutMessage (msgs ctx)\<rparr>)
         else (ev, ctx))"

definition initialContext :: "'w \<Rightarrow> bool \<Rightarrow> ('r, 'w) backupContext" where
  "initialContext w dry =
     \<lparr>out = [], dryRun = dry, targetPath = [], startDate = 0, maxSize = 2 ^ 63 - 1,
      exclude = [], count = \<lparr>dir = 0, files = 0, copied = 0\<rparr>, msgs = [],
      fsys = w, calls = []\<rparr>"

text \<open>\<open>Backup(config, out, dryRun)\<close> on the filesystem \<open>w\<close>: the error it returns and the
  context at the end, which holds what was printed, the filesystem and the calls made.\<close>

definition Backup ::
  "('r, 'w) platform \<Rightarrow> string list \<Rightarrow> 'w \<Rightarrow> bool \<Rightarrow> backupError option \<times> ('r, 'w) backupContext"
where
  "Backup pf config w dry = deferred (configLoop pf config (initialContext w dry))"

section \<open>Test doubles\<close>

text \<open>
  The theorems below hold for every platform record. To run the engine on concrete
  configurations the slots are filled the way the repository's tests fill them, with an
  in-memory filesystem, and \<open>regexp\<close> with the fragment of its syntax that has no
  operators: literal characters, escaped punctuation and the anchors \<open>^\<close> and \<open>$\<close>. This
  compiler refuses every other pattern; the only refused pattern used below is one with
  an unclosed parenthesis, which Go refuses too.
\<close>

datatype literalRegexp = LiteralRegexp bool string bool

definition metaChars :: string where
  "metaChars = CHR 0x5C # ''.+*?()|[]{}^$''"

fun literalText :: "string \<Rightarrow> string option" where
  "literalText [] = Some []"
| "literalText [c] = (if c \<in> set metaChars then None else Some [c])"
| "literalText (c # d # cs) =
     (if c = CHR 0x5C then
        (if d \<in> set metaChars then map_option ((#) d) (literalText cs) else None)
      else if c \<in> set metaChars then None
      else map_option ((#) c) (literalText (d # cs)))"

definition literalCompile :: "string \<Rightarrow> literalRegexp option" where
  "literalCompile p =
     (let atStart = prefix ''^'' p;
          p1 = (if atStart then tl p else p);
          atEnd = (suffix ''$'' p1 \<and> \<not> suffix (CHR 0x5C # ''$'') p1);
          p2 = (if atEnd then butlast p1 else p1)
      in map_option (\<lambda>lit. LiteralRegexp atStart lit atEnd) (literalText p2))"

fun containsText :: "string \<Rightarrow> string \<Rightarrow> bool" where
  "containsText lit [] = (lit = [])"
| "containsText lit (c # cs) = (prefix lit (c # cs) \<or> containsText lit cs)"

fun literalMatch :: "literalRegexp \<Rightarrow> string \<Rightarrow> bool" where
  "literalMatch (LiteralRegexp atStart lit atEnd) s =
     (if atStart \<and> atEnd then s = lit
      else if atStart then prefix lit s
      else if atEnd then suffix lit s
      else containsText lit s)"

text \<open>
  The in-memory filesystem: what \<open>stat\<close> answers for a path, what a walk from a root
  finds, and the paths for which \<open>mkdirAll\<close> and \<open>copy\<close> fail. A copy that succeeds leaves
  the destination with the source's modification time and the mode \<open>0660\<close> (\<open>0x1B0\<close>), as
  \<open>copyImpl\<close> does; a chmod sets the permission bits.
\<close>

record memfs =
  entries :: "(string \<times> FileInfo) list"
  trees :: "(string \<times> node) list"
  mkdirFails :: "string list"
  copyFails :: "string list"

definition memStat :: "memfs \<Rightarrow> string \<Rightarrow> FileInfo option" where
  "memStat w name = map_of (entries w) name"

definition memWalkDir :: "memfs \<Rightarrow> string \<Rightarrow> node" where
  "memWalkDir w root =
     (case map_of (trees w) root of Some t \<Rightarrow> t | None \<Rightarrow> DirNode root False [])"

definition memChmod :: "memfs \<Rightarrow> string \<Rightarrow> FileMode \<Rightarrow> memfs" where
  "memChmod w name perm =
     (case map_of (entries w) name of
        None \<Rightarrow> w
      | Some i \<Rightarrow> w\<lparr>entries := (name, i\<lparr>Mode := (Mode i AND NOT 0x1FF) OR perm\<rparr>) # entries w\<rparr>)"

definition memMkdirAll :: "memfs \<Rightarrow> string \<Rightarrow> FileMode \<Rightarrow> bool \<times> memfs" where
  "memMkdirAll w path perm = (path \<in> set (mkdirFails w), w)"

definition memCopy :: "memfs \<Rightarrow> string \<Rightarrow> string \<Rightarrow> FileInfo \<Rightarrow> string option \<times> memfs" where
  "memCopy w src dest srcInfo =
     (if src \<in> set (copyFails w) then (Some ''cannot copy'', w)
      else (None, w\<lparr>entries := (dest, srcInfo\<lparr>Mode := 0x1B0\<rparr>) # entries w\<rparr>))"

text \<open>Windows paths with a drive letter; the clock counts days and today is day 100.\<close>

definition driveVolumeName :: "string \<Rightarrow> string" where
  "driveVolumeName path = (if prefix '':'' (drop 1 path) then take 2 path else [])"

definition flipSlash :: "char \<Rightarrow> char" where
  "flipSlash c = (if c = CHR 0x5C then CHR ''/'' else if c = CHR ''/'' then CHR 0x5C else c)"

definition driveDir :: "string \<Rightarrow> string" where
  "driveDir path =
     driveVolumeName path
       @ map flipSlash (unixDir (map flipSlash (drop (length (driveVolumeName path)) path)))"

definition testPlatform :: "bool \<Rightarrow> int \<Rightarrow> (literalRegexp, memfs) platform" where
  "testPlatform windows cap =
     \<lparr>isWin = windows, destDirPerm = 0x1F8, printDotFileCount = 100, maxErrors = cap,
      Compile = literalCompile, MatchString = literalMatch,
      since = (\<lambda>w days. 100 - days),
      winVolumeName = driveVolumeName, winDir = driveDir,
      stat = memStat, walkDir = memWalkDir, chmod = memChmod,
      mkdirAll = memMkdirAll, copy = memCopy\<rparr>"

definition regular :: "int \<Rightarrow> int \<Rightarrow> FileInfo" where
  "regular sz t = \<lparr>Size = sz, Mode = 0x1A4, ModTime = t\<rparr>"

definition directory :: FileInfo where
  "directory = \<lparr>Size = 0, Mode = ModeDir OR 0x1ED, ModTime = 0\<rparr>"

section \<open>Fixtures\<close>

definition emptyFs :: memfs where
  "emptyFs = \<lparr>entries = [], trees = [], mkdirFails = [], copyFails = []\<rparr>"

text \<open>A Windows path on drive \<open>c:\<close> from its elements.\<close>

definition winPath :: "string list \<Rightarrow> string" where
  "winPath elems = ''c:'' @ concat (map ((#) (CHR 0x5C)) elems)"

text \<open>A Windows filesystem where the copy of \<open>c:\d1\f1\<close> under \<open>c:\backup\<close> is a day older
  than the file and writable (mode \<open>0666\<close>).\<close>

definition staleFs :: memfs where
  "staleFs =
     \<lparr>entries =
        [(winPath [''d1'', ''f1''], regular 100 90),
         (winPath [''backup'', ''d1'', ''f1''], \<lparr>Size = 100, Mode = 0x1B6, ModTime = 89\<rparr>)],
      trees = [], mkdirFails = [], copyFails = []\<rparr>"

section \<open>Auxiliary notions\<close>

text \<open>The context after \<open>handleFile\<close> has counted the file and printed the progress dot.\<close>

definition counted :: "('r, 'w) platform \<Rightarrow> ('r, 'w) backupContext \<Rightarrow> ('r, 'w) backupContext" where
  "counted pf ctx =
     (if \<not> dryRun ctx \<and> (files (count ctx) + 1) mod printDotFileCount pf = 0
      then print OutDot (incFiles ctx) else incFiles ctx)"

text \<open>
  A call that acts on the destination of some source path under the target: \<open>chmod\<close> and the
  write side of \<open>copy\<close> on the destination path itself, \<open>mkdirAll\<close> on its directory.
\<close>

fun writesUnder :: "('r, 'w) platform \<Rightarrow> string \<Rightarrow> fscall \<Rightarrow> bool" where
  "writesUnder pf target (Chmod name perm) = (\<exists>src. name = destPathOf pf target src)"
| "writesUnder pf target (MkdirAll path perm) = (\<exists>src. path = Dir pf (destPathOf pf target src))"
| "writesUnder pf target (Copy src dest srcInfo) = (dest = destPathOf pf target src)"

definition callsUnder ::
  "('r, 'w) platform \<Rightarrow> ('r, 'w) backupContext \<Rightarrow> ('r, 'w) backupContext \<Rightarrow> bool"
where
  "callsUnder pf ctx c =
     (targetPath c = targetPath ctx \<and>
      (\<exists>new. calls c = calls ctx @ new \<and> list_all (writesUnder pf (targetPath ctx)) new))"

text \<open>A relative source path on Unix.\<close>

definition relativeFs :: memfs where
  "relativeFs =
     \<lparr>entries = [(''f'', regular 100 90)], trees = [], mkdirFails = [], copyFails = []\<rparr>"

text \<open>A Windows filesystem where the copy of \<open>c:\d1\f1\<close> is as new as the file and read-only
  (mode \<open>0444\<close>).\<close>

definition readOnlyFs :: memfs where
  "readOnlyFs =
     \<lparr>entries =
        [(winPath [''d1'', ''f1''], regular 100 90),
         (winPath [''backup'', ''d1'', ''f1''], \<lparr>Size = 100, Mode = 0x124, ModTime = 90\<rparr>)],
      trees = [], mkdirFails = [], copyFails = []\<rparr>"

definition winContext :: "memfs \<Rightarrow> bool \<Rightarrow> (literalRegexp, memfs) backupContext" where
  "winContext w dry = (initialContext w dry)\<lparr>targetPath := winPath [''backup'']\<rparr>"

text \<open>The ASCII white space that \<open>strings.TrimSpace\<close> removes.\<close>

definition asciiSpace :: "char \<Rightarrow> bool" where
  "asciiSpace c =
     (c = CHR 0x09 \<or> c = CHR 0x0A \<or> c = CHR 0x0B \<or> c = CHR 0x0C \<or> c = CHR 0x0D \<or> c = CHR 0x20)"

text \<open>A trimmed line that none of the directive forms matches: a source path.\<close>

definition sourceLine :: "string \<Rightarrow> bool" where
  "sourceLine line =
     (line \<noteq> [] \<and> \<not> commentRex line \<and> targetRex line = None \<and> maxAgeRex line = None
      \<and> maxSizeRex line = None \<and> extendExcludeRex line = None \<and> excludeRex line = None)"

text \<open>
  The patterns of an exclude argument, in the words of the specification: the argument is
  trimmed and split at \<open>,,\<close>, the empty pieces are dropped, and the pieces that compile are
  kept, in order.
\<close>

definition parsedPatterns :: "('r, 'w) platform \<Rightarrow> string \<Rightarrow> 'r list" where
  "parsedPatterns pf arg =
     List.map_filter (Compile pf) (filter (\<lambda>part. part \<noteq> []) (SplitCommas (TrimSpace arg)))"

text \<open>The exclude patterns \<open>\.log$\<close> and \<open>\.tmp$\<close>.\<close>

definition logPattern :: string where
  "logPattern = CHR 0x5C # ''.log$''"

definition tmpPattern :: string where
  "tmpPattern = CHR 0x5C # ''.tmp$''"

text \<open>One round of the loop of \<open>Backup\<close>: \<open>Some\<close> error where the loop returns it, \<open>None\<close> where
  it goes on to the next line.\<close>

definition lineStep ::
  "('r, 'w) platform \<Rightarrow> ('r, 'w) backupContext \<Rightarrow> string
    \<Rightarrow> (backupError option, ('r, 'w) backupContext) outcome"
where
  "lineStep pf ctx l =
     (case processNonPathLine pf ctx (TrimSpace l) of
        Panics p ctx' \<Rightarrow> Panics p ctx'
      | Returns True ctx' \<Rightarrow> Returns None ctx'
      | Returns False ctx' \<Rightarrow>
          if targetPath ctx' = [] then
            Returns (Some TargetPathMustBeSpecified) (print (OutFatal errText) ctx')
          else
            (case stat pf (fsys ctx') (TrimSpace l) of
               None \<Rightarrow>
                 (case msg pf ctx' (''Cannot stat, skipping: '' @ TrimSpace l) of
                    Panics p ctx'' \<Rightarrow> Panics p ctx''
                  | Returns _ ctx'' \<Rightarrow> Returns None ctx'')
             | Some info \<Rightarrow>
                 (case (if IsDir info
                        then handleDir pf (print (OutSource (TrimSpace l)) ctx') (TrimSpace l)
                        else handleFile pf (print (OutSource (TrimSpace l)) ctx') (TrimSpace l)
                               info) of
                    Panics p ctx'' \<Rightarrow> Panics p ctx''
                  | Returns _ ctx'' \<Rightarrow> Returns None ctx'')))"

text \<open>The context after the directive \<open>! \.log$\<close> at the start of a run.\<close>

definition afterLog :: "(literalRegexp, memfs) backupContext" where
  "afterLog = ctxOf (processNonPathLine (testPlatform False 100) (initialContext emptyFs False)
                       (''! '' @ logPattern))"

text \<open>The files a walk reports with their information, in order.\<close>

fun filesOf :: "node \<Rightarrow> (string \<times> FileInfo) list" where
  "filesOf (FileNode path None) = []"
| "filesOf (FileNode path (Some info)) = [(path, info)]"
| "filesOf (DirNode path readErr ns) = concat (map filesOf ns)"

text \<open>The files a walk hands to \<open>handleFile\<close>: those of \<open>filesOf\<close> that are not below a
  directory matching an exclude pattern.\<close>

fun walkedFiles ::
  "('r, 'w) platform \<Rightarrow> ('r, 'w) backupContext \<Rightarrow> node \<Rightarrow> (string \<times> FileInfo) list"
where
  "walkedFiles pf ctx (FileNode path None) = []"
| "walkedFiles pf ctx (FileNode path (Some info)) = [(path, info)]"
| "walkedFiles pf ctx (DirNode path readErr ns) =
     (if excluded pf ctx path then [] else concat (map (walkedFiles pf ctx) ns))"

text \<open>
  How often the callback counts a directory during a walk, by the words of the
  specification: a directory that matches an exclude pattern is not counted and nothing
  below it is; any other directory is counted (twice where reading it failed, since
  WalkDir then reports it a second time), and so are the directories below it.
\<close>

fun dirVisits :: "('r, 'w) platform \<Rightarrow> ('r, 'w) backupContext \<Rightarrow> node \<Rightarrow> int" where
  "dirVisits pf ctx (FileNode path info) = 0"
| "dirVisits pf ctx (DirNode path readErr ns) =
     (if excluded pf ctx path then 0
      else (if readErr then 2 else 1) + sum_list (map (dirVisits pf ctx) ns))"

text \<open>A property of the outcome: of the context a function returns with, or of the panic.\<close>

definition holds ::
  "('c \<Rightarrow> bool) \<Rightarrow> (panicValue \<Rightarrow> 'c \<Rightarrow> bool) \<Rightarrow> ('a, 'c) outcome \<Rightarrow> bool"
where
  "holds P R res = (case res of Returns v c \<Rightarrow> P c | Panics p c \<Rightarrow> R p c)"

text \<open>The directory \<open>/d5\<close> of the repository's tests, with the exclude patterns \<open>f5\<close> and
  \<open>/d6/\<close> in force.\<close>

definition d5Tree :: node where
  "d5Tree =
     DirNode ''/d5'' False
       [FileNode ''/d5/f1'' (Some (regular 100 90)),
        FileNode ''/d5/f5'' (Some (regular 100 90)),
        DirNode ''/d5/d6'' False [FileNode ''/d5/d6/f1'' (Some (regular 100 90))]]"

definition d5Fs :: memfs where
  "d5Fs =
     \<lparr>entries = [(''/d5'', directory)], trees = [(''/d5'', d5Tree)],
      mkdirFails = [], copyFails = []\<rparr>"

definition d5Context :: "(literalRegexp, memfs) backupContext" where
  "d5Context =
     (initialContext d5Fs False)
       \<lparr>targetPath := ''/backup'',
        exclude := [LiteralRegexp False ''f5'' False, LiteralRegexp False ''/d6/'' False]\<rparr>"

text \<open>Fewer messages than the maximum; and what a panic leaves: exactly as many messages
  as the maximum when it is the panic of \<open>msg\<close>.\<close>

definition underCap :: "('r, 'w) platform \<Rightarrow> ('r, 'w) backupContext \<Rightarrow> bool" where
  "underCap pf ctx = (int (length (msgs ctx)) < maxErrors pf)"

definition atCap :: "('r, 'w) platform \<Rightarrow> panicValue \<Rightarrow> ('r, 'w) backupContext \<Rightarrow> bool" where
  "atCap pf p ctx =
     (if p = TooManyErrors then int (length (msgs ctx)) = maxErrors pf else underCap pf ctx)"

text \<open>
  The configuration and the files of the repository's test of errors: a malformed
  pattern, a source that cannot be examined, a file whose copy fails and one whose
  destination directory cannot be made.
\<close>

definition configErrors :: "string list" where
  "configErrors =
     ['''', ''=> /backup'', ''!@100 days'', ''!>10MB'', ''# bad and empty regexp'',
      ''!(notclosed,,'', ''/nostat'', ''/er1'', '''']"

definition errorsFs :: memfs where
  "errorsFs =
     \<lparr>entries = [(''/er1'', directory), (''/backup/er1/f1'', regular 100 89)],
      trees =
        [(''/er1'',
          DirNode ''/er1'' False
            [FileNode ''/er1/f1'' (Some (regular 100 90)),
             DirNode ''/er1/d1'' False [FileNode ''/er1/d1/f2'' (Some (regular 100 90))]])],
      mkdirFails = [''/backup/er1/d1''], copyFails = [''/er1/f1'']\<rparr>"


definition copyContext ::
  "('r, 'w) platform \<Rightarrow> ('r, 'w) backupContext \<Rightarrow> string \<Rightarrow> ('r, 'w) backupContext"
where
  "copyContext pf ctx srcPath =
     (case stat pf (fsys ctx) (destPathOf pf (targetPath ctx) srcPath) of
        Some destInfo \<Rightarrow>
          if isWin pf \<and> Mode destInfo AND 0x80 \<noteq> 0
          then callChmod pf (counted pf ctx) (destPathOf pf (targetPath ctx) srcPath)
                 (destDirPerm pf)
          else counted pf ctx
      | None \<Rightarrow>
          snd (callMkdirAll pf (counted pf ctx)
                 (Dir pf (destPathOf pf (targetPath ctx) srcPath)) (destDirPerm pf)))"



text \<open>
  A file needs no copy: it is filtered out, or its destination exists and is not older
  than it. A line needs no copy when every file it names is such, in the context and the
  filesystem in which the line is reached; a run needs none when each of its lines does.
\<close>

definition fileUpToDate ::
  "('r, 'w) platform \<Rightarrow> ('r, 'w) backupContext \<Rightarrow> string \<times> FileInfo \<Rightarrow> bool"
where
  "fileUpToDate pf ctx f =
     (filtered pf ctx (fst f) (snd f)
      \<or> (case stat pf (fsys ctx) (destPathOf pf (targetPath ctx) (fst f)) of
            None \<Rightarrow> False
          | Some destInfo \<Rightarrow> \<not> ModTime destInfo < ModTime (snd f)))"

definition lineUpToDate ::
  "('r, 'w) platform \<Rightarrow> ('r, 'w) backupContext \<Rightarrow> string \<Rightarrow> bool"
where
  "lineUpToDate pf ctx l =
     (if sourceLine (TrimSpace l) \<and> targetPath ctx \<noteq> [] then
        (case stat pf (fsys ctx) (TrimSpace l) of
           None \<Rightarrow> True
         | Some info \<Rightarrow>
             list_all (fileUpToDate pf ctx)
               (if IsDir info then walkedFiles pf ctx (walkDir pf (fsys ctx) (TrimSpace l))
                else [(TrimSpace l, info)]))
      else True)"

fun upToDate :: "('r, 'w) platform \<Rightarrow> string list \<Rightarrow> ('r, 'w) backupContext \<Rightarrow> bool" where
  "upToDate pf [] ctx = True"
| "upToDate pf (l # ls) ctx =
     (lineUpToDate pf ctx l
      \<and> (case lineStep pf ctx l of
            Returns None ctx' \<Rightarrow> upToDate pf ls ctx'
          | Returns (Some e) ctx' \<Rightarrow> True
          | Panics p ctx' \<Rightarrow> True))"

text \<open>What is printed does not report a copy: no file of a dry run, and no count of copied
  files other than 0.\<close>

fun reportsNoCopy :: "printed \<Rightarrow> bool" where
  "reportsNoCopy (OutCounts d f c) = (c = 0)"
| "reportsNoCopy (OutFile path) = False"
| "reportsNoCopy x = True"

text \<open>Nothing was copied so far: the filesystem is \<open>w\<close>, no slot was called, the counter of
  copied files is 0 and no copy was reported.\<close>

definition nothingCopied :: "'w \<Rightarrow> ('r, 'w) backupContext \<Rightarrow> bool" where
  "nothingCopied w ctx =
     (fsys ctx = w \<and> calls ctx = [] \<and> copied (count ctx) = 0
      \<and> list_all reportsNoCopy (out ctx))"

text \<open>The same settings: what the filters and the destination of a file depend on.\<close>

definition sameSettings :: "('r, 'w) backupContext \<Rightarrow> ('r, 'w) backupContext \<Rightarrow> bool" where
  "sameSettings a b =
     (dryRun a = dryRun b \<and> targetPath a = targetPath b \<and> startDate a = startDate b
      \<and> maxSize a = maxSize b \<and> exclude a = exclude b \<and> fsys a = fsys b)"

text \<open>
  A second run. The slots are outside the package; of a filesystem \<open>w'\<close> that comes after
  \<open>w\<close> the package needs that every path \<open>stat\<close> found in \<open>w\<close> is still found, with a
  modification time that is not earlier.
\<close>

definition notOlder :: "('r, 'w) platform \<Rightarrow> 'w \<Rightarrow> 'w \<Rightarrow> bool" where
  "notOlder pf w w' =
     (\<forall>p i. stat pf w p = Some i \<longrightarrow> (\<exists>i'. stat pf w' p = Some i' \<and> ModTime i \<le> ModTime i'))"

text \<open>
  What is asked of the slots that write: \<open>chmod\<close> and \<open>mkdirAll\<close> leave no path older or
  missing; a \<open>copy\<close> that succeeds leaves the destination in place with a modification
  time that is not earlier than the one of the source information it was given (\<open>copyImpl\<close>
  sets exactly that time), and leaves no other path older or missing.
\<close>

definition writesKeepTimes :: "('r, 'w) platform \<Rightarrow> bool" where
  "writesKeepTimes pf =
     ((\<forall>w name perm. notOlder pf w (chmod pf w name perm))
      \<and> (\<forall>w path perm. notOlder pf w (snd (mkdirAll pf w path perm)))
      \<and> (\<forall>w src dest srcInfo. fst (copy pf w src dest srcInfo) = None \<longrightarrow>
            (\<exists>i. stat pf (snd (copy pf w src dest srcInfo)) dest = Some i
                 \<and> ModTime srcInfo \<le> ModTime i)
            \<and> (\<forall>p i. p \<noteq> dest \<longrightarrow> stat pf w p = Some i \<longrightarrow>
                   (\<exists>i'. stat pf (snd (copy pf w src dest srcInfo)) p = Some i'
                         \<and> ModTime i \<le> ModTime i'))))"

text \<open>The settings of \<open>b\<close> are those of \<open>a\<close>, with a start date that is not earlier.\<close>

definition follows :: "('r, 'w) backupContext \<Rightarrow> ('r, 'w) backupContext \<Rightarrow> bool" where
  "follows a b =
     (targetPath a = targetPath b \<and> maxSize a = maxSize b \<and> exclude a = exclude b
      \<and> startDate a \<le> startDate b)"

text \<open>
  Unchanged sources. A line of the configuration is reached in the context \<open>ctx\<close>; in the
  filesystem \<open>w'\<close> the clock has not gone back for the days of a \<open>!@\<close> directive, and a
  source path is found by \<open>stat\<close> and by a walk as it is found in the filesystem of \<open>ctx\<close>.
  \<open>sourcesKept\<close> asks this of every line a run reaches.
\<close>

definition clockNotBack ::
  "('r, 'w) platform \<Rightarrow> 'w \<Rightarrow> ('r, 'w) backupContext \<Rightarrow> string \<Rightarrow> bool"
where
  "clockNotBack pf w' ctx line =
     (case maxAgeRex line of
        None \<Rightarrow> True
      | Some res \<Rightarrow>
          (case Atoi res of
             None \<Rightarrow> True
           | Some days \<Rightarrow> since pf (fsys ctx) days \<le> since pf w' days))"

definition sourceKept ::
  "('r, 'w) platform \<Rightarrow> 'w \<Rightarrow> ('r, 'w) backupContext \<Rightarrow> string \<Rightarrow> bool"
where
  "sourceKept pf w' ctx line =
     (if sourceLine line \<and> targetPath ctx \<noteq> [] then
        (case stat pf (fsys ctx) line of
           None \<Rightarrow> stat pf w' line = None
         | Some info \<Rightarrow>
             stat pf w' line = Some info
             \<and> (if IsDir info then walkDir pf w' line = walkDir pf (fsys ctx) line else True))
      else True)"

fun sourcesKept ::
  "('r, 'w) platform \<Rightarrow> 'w \<Rightarrow> string list \<Rightarrow> ('r, 'w) backupContext \<Rightarrow> bool"
where
  "sourcesKept pf w' [] ctx = True"
| "sourcesKept pf w' (l # ls) ctx =
     (clockNotBack pf w' ctx (TrimSpace l) \<and> sourceKept pf w' ctx (TrimSpace l)
      \<and> (case lineStep pf ctx l of
            Returns None ctx' \<Rightarrow> sourcesKept pf w' ls ctx'
          | Returns (Some e) ctx' \<Rightarrow> True
          | Panics p ctx' \<Rightarrow> True))"

text \<open>At least \<open>k\<close> messages are recorded; and what a panic leaves behind: a message, unless
  it is the division by a zero \<open>printDotFileCount\<close>.\<close>

definition recorded :: "nat \<Rightarrow> ('r, 'w) backupContext \<Rightarrow> bool" where
  "recorded k ctx = (k \<le> length (msgs ctx))"

definition panicCause :: "('r, 'w) platform \<Rightarrow> panicValue \<Rightarrow> ('r, 'w) backupContext \<Rightarrow> bool" where
  "panicCause pf p ctx = (msgs ctx \<noteq> [] \<or> printDotFileCount pf = 0)"

text \<open>A directory with two files and a single file, to be copied to \<open>/backup\<close>.\<close>

definition docsFs :: memfs where
  "docsFs =
     \<lparr>entries = [(''/docs'', directory), (''/notes'', regular 10 70)],
      trees =
        [(''/docs'',
          DirNode ''/docs'' False
            [FileNode ''/docs/a'' (Some (regular 100 90)),
             FileNode ''/docs/b'' (Some (regular 50 80))])],
      mkdirFails = [], copyFails = []\<rparr>"

definition docsConfig :: "string list" where
  "docsConfig = [''=> /backup'', ''/docs'', ''/notes'']"

text \<open>In a dry run, what the slots were called for: nothing but \<open>chmod\<close>, and nothing at all
  where the platform is not Windows.\<close>

fun isChmod :: "fscall \<Rightarrow> bool" where
  "isChmod (Chmod name perm) = True"
| "isChmod c = False"

definition dryCalls :: "('r, 'w) platform \<Rightarrow> ('r, 'w) backupContext \<Rightarrow> bool" where
  "dryCalls pf ctx =
     (dryRun ctx \<and> list_all isChmod (calls ctx) \<and> (isWin pf \<or> calls ctx = []))"

section \<open>Properties\<close>

subsection \<open>What each step changes in the context\<close>

lemma print_fields [simp]:
  "out (print x ctx) = out ctx @ [x]"
  "dryRun (print x ctx) = dryRun ctx"
  "targetPath (print x ctx) = targetPath ctx"
  "startDate (print x ctx) = startDate ctx"
  "maxSize (print x ctx) = maxSize ctx"
  "exclude (print x ctx) = exclude ctx"
  "count (print x ctx) = count ctx"
  "msgs (print x ctx) = msgs ctx"
  "fsys (print x ctx) = fsys ctx"
  "calls (print x ctx) = calls ctx"
  by (simp_all add: print_def)

lemma incFiles_fields [simp]:
  "out (incFiles ctx) = out ctx"
  "dryRun (incFiles ctx) = dryRun ctx"
  "targetPath (incFiles ctx) = targetPath ctx"
  "startDate (incFiles ctx) = startDate ctx"
  "maxSize (incFiles ctx) = maxSize ctx"
  "exclude (incFiles ctx) = exclude ctx"
  "count (incFiles ctx) = (count ctx)\<lparr>files := files (count ctx) + 1\<rparr>"
  "msgs (incFiles ctx) = msgs ctx"
  "fsys (incFiles ctx) = fsys ctx"
  "calls (incFiles ctx) = calls ctx"
  by (simp_all add: incFiles_def)

lemma incDir_fields [simp]:
  "out (incDir ctx) = out ctx"
  "dryRun (incDir ctx) = dryRun ctx"
  "targetPath (incDir ctx) = targetPath ctx"
  "startDate (incDir ctx) = startDate ctx"
  "maxSize (incDir ctx) = maxSize ctx"
  "exclude (incDir ctx) = exclude ctx"
  "count (incDir ctx) = (count ctx)\<lparr>dir := dir (count ctx) + 1\<rparr>"
  "msgs (incDir ctx) = msgs ctx"
  "fsys (incDir ctx) = fsys ctx"
  "calls (incDir ctx) = calls ctx"
  by (simp_all add: incDir_def)

lemma incCopied_fields [simp]:
  "out (incCopied ctx) = out ctx"
  "dryRun (incCopied ctx) = dryRun ctx"
  "targetPath (incCopied ctx) = targetPath ctx"
  "startDate (incCopied ctx) = startDate ctx"
  "maxSize (incCopied ctx) = maxSize ctx"
  "exclude (incCopied ctx) = exclude ctx"
  "count (incCopied ctx) = (count ctx)\<lparr>copied := copied (count ctx) + 1\<rparr>"
  "msgs (incCopied ctx) = msgs ctx"
  "fsys (incCopied ctx) = fsys ctx"
  "calls (incCopied ctx) = calls ctx"
  by (simp_all add: incCopied_def)

lemma callChmod_fields [simp]:
  "out (callChmod pf ctx name perm) = out ctx"
  "dryRun (callChmod pf ctx name perm) = dryRun ctx"
  "targetPath (callChmod pf ctx name perm) = targetPath ctx"
  "startDate (callChmod pf ctx name perm) = startDate ctx"
  "maxSize (callChmod pf ctx name perm) = maxSize ctx"
  "exclude (callChmod pf ctx name perm) = exclude ctx"
  "count (callChmod pf ctx name perm) = count ctx"
  "msgs (callChmod pf ctx name perm) = msgs ctx"
  "fsys (callChmod pf ctx name perm) = chmod pf (fsys ctx) name perm"
  "calls (callChmod pf ctx name perm) = calls ctx @ [Chmod name perm]"
  by (simp_all add: callChmod_def)

lemma callMkdirAll_fields [simp]:
  "out (snd (callMkdirAll pf ctx path perm)) = out ctx"
  "dryRun (snd (callMkdirAll pf ctx path perm)) = dryRun ctx"
  "targetPath (snd (callMkdirAll pf ctx path perm)) = targetPath ctx"
  "startDate (snd (callMkdirAll pf ctx path perm)) = startDate ctx"
  "maxSize (snd (callMkdirAll pf ctx path perm)) = maxSize ctx"
  "exclude (snd (callMkdirAll pf ctx path perm)) = exclude ctx"
  "count (snd (callMkdirAll pf ctx path perm)) = count ctx"
  "msgs (snd (callMkdirAll pf ctx path perm)) = msgs ctx"
  "fsys (snd (callMkdirAll pf ctx path perm)) = snd (mkdirAll pf (fsys ctx) path perm)"
  "calls (snd (callMkdirAll pf ctx path perm)) = calls ctx @ [MkdirAll path perm]"
  "fst (callMkdirAll pf ctx path perm) = fst (mkdirAll pf (fsys ctx) path perm)"
  by (simp_all add: callMkdirAll_def)

lemma callCopy_fields [simp]:
  "out (snd (callCopy pf ctx src dest srcInfo)) = out ctx"
  "dryRun (snd (callCopy pf ctx src dest srcInfo)) = dryRun ctx"
  "targetPath (snd (callCopy pf ctx src dest srcInfo)) = targetPath ctx"
  "startDate (snd (callCopy pf ctx src dest srcInfo)) = startDate ctx"
  "maxSize (snd (callCopy pf ctx src dest srcInfo)) = maxSize ctx"
  "exclude (snd (callCopy pf ctx src dest srcInfo)) = exclude ctx"
  "count (snd (callCopy pf ctx src dest srcInfo)) = count ctx"
  "msgs (snd (callCopy pf ctx src dest srcInfo)) = msgs ctx"
  "fsys (snd (callCopy pf ctx src dest srcInfo)) = snd (copy pf (fsys ctx) src dest srcInfo)"
  "calls (snd (callCopy pf ctx src dest srcInfo)) = calls ctx @ [Copy src dest srcInfo]"
  "fst (callCopy pf ctx src dest srcInfo) = fst (copy pf (fsys ctx) src dest srcInfo)"
  by (simp_all add: callCopy_def)

lemma msg_fields [simp]:
  "out (ctxOf (msg pf ctx m)) = out ctx"
  "dryRun (ctxOf (msg pf ctx m)) = dryRun ctx"
  "targetPath (ctxOf (msg pf ctx m)) = targetPath ctx"
  "startDate (ctxOf (msg pf ctx m)) = startDate ctx"
  "maxSize (ctxOf (msg pf ctx m)) = maxSize ctx"
  "exclude (ctxOf (msg pf ctx m)) = exclude ctx"
  "count (ctxOf (msg pf ctx m)) = count ctx"
  "msgs (ctxOf (msg pf ctx m)) = msgs ctx @ [m]"
  "fsys (ctxOf (msg pf ctx m)) = fsys ctx"
  "calls (ctxOf (msg pf ctx m)) = calls ctx"
  by (simp_all add: msg_def Let_def)

lemma counted_fields [simp]:
  "dryRun (counted pf ctx) = dryRun ctx"
  "targetPath (counted pf ctx) = targetPath ctx"
  "startDate (counted pf ctx) = startDate ctx"
  "maxSize (counted pf ctx) = maxSize ctx"
  "exclude (counted pf ctx) = exclude ctx"
  "msgs (counted pf ctx) = msgs ctx"
  "fsys (counted pf ctx) = fsys ctx"
  "calls (counted pf ctx) = calls ctx"
  "count (counted pf ctx) = (count ctx)\<lparr>files := files (count ctx) + 1\<rparr>"
  by (simp_all add: counted_def)

lemma msg_cases:
  "msg pf ctx m =
     (if maxErrors pf \<le> int (length (msgs ctx)) + 1
      then Panics TooManyErrors (ctx\<lparr>msgs := msgs ctx @ [m]\<rparr>)
      else Returns () (ctx\<lparr>msgs := msgs ctx @ [m]\<rparr>))"
  by (simp add: msg_def Let_def)

subsection \<open>handleFile, branch by branch\<close>

lemma copyOrReport_alt:
  "copyOrReport pf ctx src dest i =
     (if dryRun ctx then Returns () (incCopied (print (OutFile src) ctx))
      else (case fst (copy pf (fsys ctx) src dest i) of
              Some err \<Rightarrow> msg pf (snd (callCopy pf ctx src dest i)) err
            | None \<Rightarrow> Returns () (incCopied (snd (callCopy pf ctx src dest i)))))"
  by (simp add: copyOrReport_def case_prod_beta)

lemma copyOrReport_fields [simp]:
  "dryRun (ctxOf (copyOrReport pf ctx src dest i)) = dryRun ctx"
  "targetPath (ctxOf (copyOrReport pf ctx src dest i)) = targetPath ctx"
  "startDate (ctxOf (copyOrReport pf ctx src dest i)) = startDate ctx"
  "maxSize (ctxOf (copyOrReport pf ctx src dest i)) = maxSize ctx"
  "exclude (ctxOf (copyOrReport pf ctx src dest i)) = exclude ctx"
  "calls (ctxOf (copyOrReport pf ctx src dest i)) =
     (if dryRun ctx then calls ctx else calls ctx @ [Copy src dest i])"
  "fsys (ctxOf (copyOrReport pf ctx src dest i)) =
     (if dryRun ctx then fsys ctx else snd (copy pf (fsys ctx) src dest i))"
  by (simp_all add: copyOrReport_alt split: option.splits)

lemma handleFile_alt:
  "handleFile pf ctx srcPath srcInfo =
     (if \<not> dryRun ctx \<and> printDotFileCount pf = 0 then Panics DivideByZero (incFiles ctx)
      else if filtered pf (counted pf ctx) srcPath srcInfo then Returns () (counted pf ctx)
      else
        (case stat pf (fsys ctx) (destPathOf pf (targetPath ctx) srcPath) of
           Some destInfo \<Rightarrow>
             if \<not> ModTime destInfo < ModTime srcInfo then Returns () (counted pf ctx)
             else copyOrReport pf
                    (if isWin pf \<and> Mode destInfo AND 0x80 \<noteq> 0
                     then callChmod pf (counted pf ctx) (destPathOf pf (targetPath ctx) srcPath)
                            (destDirPerm pf)
                     else counted pf ctx)
                    srcPath (destPathOf pf (targetPath ctx) srcPath) srcInfo
         | None \<Rightarrow>
             if dryRun ctx then
               copyOrReport pf (counted pf ctx) srcPath (destPathOf pf (targetPath ctx) srcPath)
                 srcInfo
             else if fst (mkdirAll pf (fsys ctx)
                            (Dir pf (destPathOf pf (targetPath ctx) srcPath)) (destDirPerm pf))
             then msg pf (snd (callMkdirAll pf (counted pf ctx)
                                 (Dir pf (destPathOf pf (targetPath ctx) srcPath))
                                 (destDirPerm pf)))
                    (''Cannot create dirs for: '' @ destPathOf pf (targetPath ctx) srcPath)
             else copyOrReport pf
                    (snd (callMkdirAll pf (counted pf ctx)
                            (Dir pf (destPathOf pf (targetPath ctx) srcPath)) (destDirPerm pf)))
                    srcPath (destPathOf pf (targetPath ctx) srcPath) srcInfo))"
  by (simp add: handleFile_def Let_def counted_def case_prod_beta bool.case_eq_if
      split: option.splits)

lemma handleFile_keeps [simp]:
  "dryRun (ctxOf (handleFile pf ctx srcPath srcInfo)) = dryRun ctx"
  "targetPath (ctxOf (handleFile pf ctx srcPath srcInfo)) = targetPath ctx"
  "startDate (ctxOf (handleFile pf ctx srcPath srcInfo)) = startDate ctx"
  "maxSize (ctxOf (handleFile pf ctx srcPath srcInfo)) = maxSize ctx"
  "exclude (ctxOf (handleFile pf ctx srcPath srcInfo)) = exclude ctx"
  by (simp_all add: handleFile_alt split: option.splits)

lemma handleFile_calls:
  "\<exists>new. calls (ctxOf (handleFile pf ctx srcPath srcInfo)) = calls ctx @ new \<and>
     new \<in> set (let d = destPathOf pf (targetPath ctx) srcPath; perm = destDirPerm pf in
      [[], [Chmod d perm], [Chmod d perm, Copy srcPath d srcInfo], [Copy srcPath d srcInfo],
       [MkdirAll (Dir pf d) perm], [MkdirAll (Dir pf d) perm, Copy srcPath d srcInfo]])"
  by (simp add: handleFile_alt Let_def split: option.splits)

subsection \<open>What holds at every step of a walk\<close>

lemma walkNodes_invariant:
  assumes each: "\<And>n ctx. n \<in> set ns \<Longrightarrow> P ctx \<Longrightarrow> P (ctxOf (walkNode pf n ctx))"
    and start: "P ctx"
  shows "P (ctxOf (walkNodes pf ns ctx))"
  using each start
proof (induction ns arbitrary: ctx)
  case Nil
  then show ?case by simp
next
  case (Cons n ns)
  have first: "P (ctxOf (walkNode pf n ctx))"
    using Cons.prems by simp
  show ?case
  proof (cases "walkNode pf n ctx")
    case (Panics p c)
    with first show ?thesis by simp
  next
    case (Returns v c)
    with first have "P c" by simp
    then have "P (ctxOf (walkNodes pf ns c))"
      using Cons.IH Cons.prems(1) by simp
    with Returns show ?thesis by simp
  qed
qed

lemma walkNode_invariant:
  assumes cb: "\<And>ctx path isd info. P ctx \<Longrightarrow> P (ctxOf (walkCallback pf ctx path isd info))"
  shows "P ctx \<Longrightarrow> P (ctxOf (walkNode pf n ctx))"
proof (induction n arbitrary: ctx)
  case (FileNode path info)
  from cb [OF FileNode.prems, of path False info] show ?case
    by (cases "walkCallback pf ctx path False info") simp_all
next
  case (DirNode path readErr entries)
  have below: "\<And>c. P c \<Longrightarrow> P (ctxOf (walkNodes pf entries c))"
    using DirNode.IH by (rule walkNodes_invariant)
  have once: "P (ctxOf (walkCallback pf ctx path True None))"
    using cb DirNode.prems by simp
  show ?case
  proof (cases "walkCallback pf ctx path True None")
    case (Panics p c)
    with once show ?thesis by simp
  next
    case r1: (Returns v c)
    with once have c: "P c" by simp
    have twice: "P (ctxOf (walkCallback pf c path True None))"
      using cb c by simp
    show ?thesis
    proof (cases "walkCallback pf c path True None")
      case (Panics p c')
      with twice r1 c below [OF c] show ?thesis by (cases v; cases readErr) simp_all
    next
      case r2: (Returns v' c')
      with twice have "P c'" by simp
      with r1 r2 c below show ?thesis by (cases v; cases v'; cases readErr) simp_all
    qed
  qed
qed

lemma walkCallback_ctxOf:
  "ctxOf (walkCallback pf ctx path isd info) =
     (if isd then (if excluded pf ctx path then ctx else incDir ctx)
      else (case info of None \<Rightarrow> ctx | Some i \<Rightarrow> ctxOf (handleFile pf ctx path i)))"
  by (auto simp: walkCallback_def split: option.splits outcome.splits)

lemma walkNode_keeps_all:
  "dryRun (ctxOf (walkNode pf n ctx)) = dryRun ctx \<and>
   targetPath (ctxOf (walkNode pf n ctx)) = targetPath ctx \<and>
   startDate (ctxOf (walkNode pf n ctx)) = startDate ctx \<and>
   maxSize (ctxOf (walkNode pf n ctx)) = maxSize ctx \<and>
   exclude (ctxOf (walkNode pf n ctx)) = exclude ctx"
  by (rule walkNode_invariant
        [where P = "\<lambda>c. dryRun c = dryRun ctx \<and> targetPath c = targetPath ctx \<and>
                      startDate c = startDate ctx \<and> maxSize c = maxSize ctx \<and>
                      exclude c = exclude ctx"])
     (simp_all add: walkCallback_ctxOf split: option.splits)

lemma walkNode_keeps [simp]:
  "dryRun (ctxOf (walkNode pf n ctx)) = dryRun ctx"
  "targetPath (ctxOf (walkNode pf n ctx)) = targetPath ctx"
  "startDate (ctxOf (walkNode pf n ctx)) = startDate ctx"
  "maxSize (ctxOf (walkNode pf n ctx)) = maxSize ctx"
  "exclude (ctxOf (walkNode pf n ctx)) = exclude ctx"
  using walkNode_keeps_all [of pf n ctx] by simp_all

subsection \<open>Where the calls go\<close>

lemma handleFile_writesUnder:
  "\<exists>new. calls (ctxOf (handleFile pf ctx srcPath srcInfo)) = calls ctx @ new \<and>
         list_all (writesUnder pf (targetPath ctx)) new"
  using handleFile_calls [of pf ctx srcPath srcInfo] by (auto simp: Let_def)

lemma callsUnder_refl: "callsUnder pf ctx ctx"
  by (simp add: callsUnder_def)

lemma walkCallback_callsUnder:
  assumes "callsUnder pf ctx c"
  shows "callsUnder pf ctx (ctxOf (walkCallback pf c path isd info))"
proof -
  from assms obtain new where new: "targetPath c = targetPath ctx" "calls c = calls ctx @ new"
     "list_all (writesUnder pf (targetPath ctx)) new"
    by (auto simp: callsUnder_def)
  show ?thesis
  proof (cases "isd \<or> info = None")
    case True
    with new show ?thesis
      by (auto simp: walkCallback_ctxOf callsUnder_def)
  next
    case False
    then obtain i where i: "info = Some i" "\<not> isd" by auto
    from handleFile_writesUnder [of pf c path i] obtain more where
      more: "calls (ctxOf (handleFile pf c path i)) = calls c @ more"
        "list_all (writesUnder pf (targetPath c)) more" by auto
    with i new show ?thesis
      by (simp add: walkCallback_ctxOf callsUnder_def)
  qed
qed

lemma walkNode_callsUnder: "callsUnder pf ctx (ctxOf (walkNode pf n ctx))"
  by (rule walkNode_invariant [where P = "callsUnder pf ctx"])
     (simp_all add: walkCallback_callsUnder callsUnder_refl)

subsection \<open>Trimming and the directive forms\<close>

lemma leadingSpace_arrow: "leadingSpace (CHR ''='' # s) = 0"
  by (simp add: leadingSpace_def spaceRunes_def)

lemma suffix_single: "suffix [a] (s @ [c]) \<longleftrightarrow> a = c"
  by (auto simp: suffix_def)

lemma trailingSpace_ascii: "asciiSpace c \<Longrightarrow> trailingSpace (s @ [c]) = 1"
  unfolding asciiSpace_def trailingSpace_def spaceRunes_def
  by (elim disjE) (simp_all add: suffix_single)

lemma trailingSpace_arrow: "trailingSpace ''=>'' = 0"
  by code_simp

lemma trimRight_ascii: "list_all asciiSpace ws \<Longrightarrow> trimRight (''=>'' @ ws) = ''=>''"
proof (induction ws rule: rev_induct)
  case Nil
  show ?case using trailingSpace_arrow by (simp add: trimRight.simps)
next
  case (snoc c ws)
  then have c: "asciiSpace c" and ws: "list_all asciiSpace ws" by simp_all
  have "trimRight ((''=>'' @ ws) @ [c]) = trimRight (''=>'' @ ws)"
    using trailingSpace_ascii [OF c, of "''=>'' @ ws"]
    by (subst trimRight.simps) simp
  with snoc.IH [OF ws] show ?case by simp
qed

lemma TrimSpace_arrow: "list_all asciiSpace ws \<Longrightarrow> TrimSpace (''=>'' @ ws) = ''=>''"
  using leadingSpace_arrow [of "CHR ''>'' # ws"]
  by (simp add: TrimSpace_def trimLeft.simps trimRight_ascii [simplified])

lemma sourceLine_returns_False:
  "sourceLine line \<Longrightarrow> processNonPathLine pf ctx line = Returns False ctx"
  by (simp add: sourceLine_def processNonPathLine_def)

lemma targetRex_arrow: "targetRex ''=>'' = Some []"
  by code_simp

lemma empty_target_directive:
  "processNonPathLine pf ctx ''=>'' = Returns True (print (OutTarget []) (ctx\<lparr>targetPath := []\<rparr>))"
  by (simp add: processNonPathLine_def targetRex_arrow commentRex_def TrimSuffix_def Let_def)

subsection \<open>The loop of Backup, round by round\<close>

lemma configLoop_step:
  "configLoop pf (l # ls) ctx =
     (case lineStep pf ctx l of
        Panics p c \<Rightarrow> Panics p c
      | Returns (Some e) c \<Rightarrow> Returns (Some e) c
      | Returns None c \<Rightarrow> configLoop pf ls c)"
  by (simp add: lineStep_def Let_def split: outcome.splits bool.splits option.splits)

lemma lineStep_no_target:
  "sourceLine (TrimSpace src) \<Longrightarrow> targetPath ctx = [] \<Longrightarrow>
   lineStep pf ctx src = Returns (Some TargetPathMustBeSpecified) (print (OutFatal errText) ctx)"
  by (simp add: lineStep_def sourceLine_returns_False)

subsection \<open>The exclude directives\<close>

lemma excludeParts_exclude:
  "excludeParts pf parts ctx = Returns v c \<Longrightarrow>
   exclude c = exclude ctx @ List.map_filter (Compile pf) (filter (\<lambda>part. part \<noteq> []) parts)"
proof (induction parts arbitrary: ctx)
  case Nil
  then show ?case by (simp add: List.map_filter_simps)
next
  case (Cons part parts)
  show ?case
  proof (cases "part = []")
    case True
    with Cons show ?thesis by simp
  next
    case False
    show ?thesis
    proof (cases "Compile pf part")
      case (Some rex)
      with False Cons.prems Cons.IH [of "ctx\<lparr>exclude := exclude ctx @ [rex]\<rparr>"]
      show ?thesis by (simp add: List.map_filter_simps)
    next
      case None
      with False Cons.prems
      have "excludeParts pf parts (ctx\<lparr>msgs := msgs ctx @ [''Error in exlude regexp: '' @ part]\<rparr>)
              = Returns v c"
        by (simp add: msg_cases split: if_splits)
      from Cons.IH [OF this] None False show ?thesis by (simp add: List.map_filter_simps)
    qed
  qed
qed

lemma parseExclude_exclude:
  "parseExclude pf ctx arg ext = Returns v c \<Longrightarrow>
   exclude c = (if ext then exclude ctx else []) @ parsedPatterns pf arg"
  by (auto simp: parseExclude_def parsedPatterns_def dest: excludeParts_exclude)

lemma parseExclude_clear:
  "TrimSpace arg = [] \<Longrightarrow> parseExclude pf ctx arg False = Returns () (ctx\<lparr>exclude := []\<rparr>)"
  by (simp add: parseExclude_def)

lemma excludeRex_line:
  "excludeRex line = Some arg \<Longrightarrow> line \<noteq> [] \<and> \<not> commentRex line \<and> targetRex line = None"
  by (auto simp: excludeRex_def stripPrefix_def commentRex_def targetRex_def prefix_def
      split: if_splits)

lemma extendExcludeRex_line:
  "extendExcludeRex line = Some arg \<Longrightarrow>
   line \<noteq> [] \<and> \<not> commentRex line \<and> targetRex line = None \<and> maxAgeRex line = None
   \<and> maxSizeRex line = None"
  by (auto simp: extendExcludeRex_def stripPrefix_def commentRex_def targetRex_def maxAgeRex_def
      maxSizeRex_def prefix_def split: if_splits)

lemma exclude_directive:
  assumes "excludeRex line = Some arg" "maxAgeRex line = None" "maxSizeRex line = None"
    "extendExcludeRex line = None"
  shows "processNonPathLine pf ctx line =
     (case parseExclude pf ctx arg False of
        Panics p c \<Rightarrow> Panics p c
      | Returns _ c \<Rightarrow> Returns True (print (OutExclude arg) c))"
  using assms excludeRex_line [OF assms(1)] by (simp add: processNonPathLine_def)

lemma extend_directive:
  assumes "extendExcludeRex line = Some arg"
  shows "processNonPathLine pf ctx line =
     (case parseExclude pf ctx arg True of
        Panics p c \<Rightarrow> Panics p c
      | Returns _ c \<Rightarrow> Returns True (print (OutExtendExclude arg) c))"
  using assms extendExcludeRex_line [OF assms] by (simp add: processNonPathLine_def)

subsection \<open>What holds of the outcome of a walk\<close>

lemma holds_simps [simp]:
  "holds P R (Returns v c) = P c"
  "holds P R (Panics p c) = R p c"
  by (simp_all add: holds_def)

lemma walkNodes_holds:
  assumes each: "\<And>n ctx. n \<in> set ns \<Longrightarrow> P ctx \<Longrightarrow> holds P R (walkNode pf n ctx)"
    and start: "P ctx"
  shows "holds P R (walkNodes pf ns ctx)"
  using each start
proof (induction ns arbitrary: ctx)
  case Nil
  then show ?case by simp
next
  case (Cons n ns)
  have first: "holds P R (walkNode pf n ctx)"
    using Cons.prems by simp
  show ?case
  proof (cases "walkNode pf n ctx")
    case (Panics p c)
    with first show ?thesis by simp
  next
    case (Returns v c)
    with first have "P c" by simp
    then have "holds P R (walkNodes pf ns c)"
      using Cons.IH Cons.prems(1) by simp
    with Returns show ?thesis by simp
  qed
qed

lemma walkNode_holds:
  assumes fileStep: "\<And>ctx path info. (path, info) \<in> set (filesOf n) \<Longrightarrow> P ctx
                   \<Longrightarrow> holds P R (handleFile pf ctx path info)"
    and dirs: "\<And>ctx. P ctx \<Longrightarrow> P (incDir ctx)"
  shows "P ctx \<Longrightarrow> holds P R (walkNode pf n ctx)"
  using fileStep
proof (induction n arbitrary: ctx)
  case (FileNode path info)
  show ?case
  proof (cases info)
    case None
    with FileNode.prems(1) show ?thesis by (simp add: walkCallback_def)
  next
    case (Some i)
    with FileNode.prems(2) [of path i ctx] FileNode.prems(1) show ?thesis
      by (cases "handleFile pf ctx path i") (simp_all add: walkCallback_def)
  qed
next
  case (DirNode path readErr entries)
  have below: "holds P R (walkNodes pf entries c)" if "P c" for c
  proof (rule walkNodes_holds [where P = P and R = R])
    show "P c" by (rule that)
  next
    fix n c'
    assume n: "n \<in> set entries" and c': "P c'"
    show "holds P R (walkNode pf n c')"
    proof (rule DirNode.IH [OF n c'])
      fix path' info' ctx'
      assume "(path', info') \<in> set (filesOf n)" "P ctx'"
      with n show "holds P R (handleFile pf ctx' path' info')"
        using DirNode.prems(2) [of path' info' ctx'] by auto
    qed
  qed
  show ?case
    using DirNode.prems(1) dirs below
    by (simp add: walkCallback_def)
qed

subsection \<open>The directory counter\<close>

lemma copyOrReport_counts [simp]:
  "dir (count (ctxOf (copyOrReport pf ctx src dest i))) = dir (count ctx)"
  "files (count (ctxOf (copyOrReport pf ctx src dest i))) = files (count ctx)"
  by (simp_all add: copyOrReport_alt split: option.splits)

lemma handleFile_dir [simp]:
  "dir (count (ctxOf (handleFile pf ctx srcPath srcInfo))) = dir (count ctx)"
  by (simp add: handleFile_alt split: option.splits)

lemma excluded_cong: "exclude c = exclude ctx \<Longrightarrow> excluded pf c path = excluded pf ctx path"
  by (simp add: excluded_def)

lemma dirVisits_cong:
  assumes "exclude c = exclude ctx"
  shows "dirVisits pf c n = dirVisits pf ctx n"
proof (induction n)
  case (FileNode path info)
  show ?case by simp
next
  case (DirNode path readErr ents)
  have m: "map (dirVisits pf c) ents = map (dirVisits pf ctx) ents"
    by (rule map_cong [OF refl]) (rule DirNode.IH)
  show ?case by (simp only: dirVisits.simps m excluded_cong [OF assms])
qed

lemma walkNodes_dir_count:
  assumes each: "\<And>n ctx v c. n \<in> set ns \<Longrightarrow> walkNode pf n ctx = Returns v c
                   \<Longrightarrow> dir (count c) = dir (count ctx) + dirVisits pf ctx n"
    and run: "walkNodes pf ns ctx = Returns v c"
  shows "dir (count c) = dir (count ctx) + sum_list (map (dirVisits pf ctx) ns)"
  using each run
proof (induction ns arbitrary: ctx)
  case Nil
  then show ?case by simp
next
  case (Cons n ns)
  from Cons.prems(2) obtain v' c' where first: "walkNode pf n ctx = Returns v' c'"
    and rest: "walkNodes pf ns c' = Returns v c"
    by (auto split: outcome.splits)
  have same: "exclude c' = exclude ctx"
    using walkNode_keeps(5) [of pf n ctx] first by simp
  have "dir (count c') = dir (count ctx) + dirVisits pf ctx n"
    using Cons.prems(1) first by simp
  moreover have "dir (count c) = dir (count c') + sum_list (map (dirVisits pf c') ns)"
    using Cons.IH [OF _ rest] Cons.prems(1) by simp
  moreover have "map (dirVisits pf c') ns = map (dirVisits pf ctx) ns"
    using dirVisits_cong [OF same] by simp
  ultimately show ?case by simp
qed

lemma walkNode_dir_count:
  "walkNode pf n ctx = Returns v c \<Longrightarrow> dir (count c) = dir (count ctx) + dirVisits pf ctx n"
proof (induction n arbitrary: ctx v c)
  case (FileNode path info)
  show ?case
  proof (cases info)
    case None
    with FileNode show ?thesis by (simp add: walkCallback_def)
  next
    case (Some i)
    with FileNode have "ctxOf (handleFile pf ctx path i) = c"
      by (cases "handleFile pf ctx path i") (simp_all add: walkCallback_def)
    with handleFile_dir [of pf ctx path i] show ?thesis by simp
  qed
next
  case (DirNode path readErr ents)
  show ?case
  proof (cases "excluded pf ctx path")
    case True
    with DirNode.prems show ?thesis by (simp add: walkCallback_def)
  next
    case False
    let ?c1 = "if readErr then incDir (incDir ctx) else incDir ctx"
    have ex: "exclude ?c1 = exclude ctx" by simp
    from False have "\<not> excluded pf (incDir ctx) path" by (simp add: excluded_def)
    with False DirNode.prems have run: "walkNodes pf ents ?c1 = Returns v c"
      by (simp add: walkCallback_def split: if_splits)
    have "dir (count c) = dir (count ?c1) + sum_list (map (dirVisits pf ?c1) ents)"
      using DirNode.IH run by (rule walkNodes_dir_count)
    moreover have "map (dirVisits pf ?c1) ents = map (dirVisits pf ctx) ents"
      using dirVisits_cong [OF ex] by simp
    ultimately show ?thesis using False by simp
  qed
qed

lemma walkNodes_dir_mono: "d \<le> dir (count ctx) \<Longrightarrow> d \<le> dir (count (ctxOf (walkNodes pf ns ctx)))"
proof (rule walkNodes_invariant [where P = "\<lambda>c. d \<le> dir (count c)"])
  fix n and c :: "('a, 'b) backupContext"
  assume "d \<le> dir (count c)"
  then show "d \<le> dir (count (ctxOf (walkNode pf n c)))"
    by (rule walkNode_invariant [where P = "\<lambda>c. d \<le> dir (count c)", rotated])
       (simp add: walkCallback_ctxOf split: option.splits)
qed

lemma walkNode_counts_directory:
  assumes "\<not> excluded pf ctx path"
  shows "dir (count ctx) < dir (count (ctxOf (walkNode pf (DirNode path readErr ents) ctx)))"
proof -
  let ?c1 = "if readErr then incDir (incDir ctx) else incDir ctx"
  from assms have "\<not> excluded pf (incDir ctx) path" by (simp add: excluded_def)
  with assms have "walkNode pf (DirNode path readErr ents) ctx = walkNodes pf ents ?c1"
    by (simp add: walkCallback_def)
  moreover have "dir (count ctx) + 1 \<le> dir (count (ctxOf (walkNodes pf ents ?c1)))"
    by (rule walkNodes_dir_mono) simp
  ultimately show ?thesis by simp
qed

lemma walkNode_pruned:
  "excluded pf ctx path \<Longrightarrow> walkNode pf (DirNode path readErr ents) ctx = Returns () ctx"
  by (simp add: walkCallback_def)

lemma handleDir_dir_count:
  assumes "handleDir pf ctx root = Returns v c"
  shows "dir (count c) = dirVisits pf ctx (walkDir pf (fsys ctx) root)"
proof -
  let ?c0 = "ctx\<lparr>count := \<lparr>dir = 0, files = 0, copied = 0\<rparr>\<rparr>"
  from assms obtain v' c' where run: "walkNode pf (walkDir pf (fsys ctx) root) ?c0 = Returns v' c'"
    and c: "dir (count c) = dir (count c')"
    by (auto simp: handleDir_def Let_def split: outcome.splits if_splits)
  have "exclude ?c0 = exclude ctx" by simp
  from walkNode_dir_count [OF run] dirVisits_cong [OF this] c show ?thesis by simp
qed

subsection \<open>The number of messages\<close>

lemma msg_cap: "underCap pf ctx \<Longrightarrow> holds (underCap pf) (atCap pf) (msg pf ctx m)"
  by (simp add: msg_cases underCap_def atCap_def)

lemma underCap_cong: "msgs c = msgs ctx \<Longrightarrow> underCap pf c = underCap pf ctx"
  by (simp add: underCap_def)

lemma copyOrReport_cap:
  "underCap pf ctx \<Longrightarrow> holds (underCap pf) (atCap pf) (copyOrReport pf ctx src dest i)"
  by (simp add: copyOrReport_alt msg_cases underCap_def atCap_def split: option.splits)

lemma handleFile_cap:
  "underCap pf ctx \<Longrightarrow> holds (underCap pf) (atCap pf) (handleFile pf ctx srcPath srcInfo)"
  by (simp add: handleFile_alt copyOrReport_alt msg_cases underCap_def atCap_def
      split: option.splits)

lemma walkNode_cap:
  "underCap pf ctx \<Longrightarrow> holds (underCap pf) (atCap pf) (walkNode pf n ctx)"
  by (rule walkNode_holds) (simp_all add: handleFile_cap underCap_def)

lemma handleDir_cap:
  assumes "underCap pf ctx"
  shows "holds (underCap pf) (atCap pf) (handleDir pf ctx path)"
proof -
  let ?c0 = "ctx\<lparr>count := \<lparr>dir = 0, files = 0, copied = 0\<rparr>\<rparr>"
  from assms have "underCap pf ?c0" by (simp add: underCap_def)
  then have "holds (underCap pf) (atCap pf) (walkNode pf (walkDir pf (fsys ctx) path) ?c0)"
    by (rule walkNode_cap)
  then show ?thesis
    by (cases "walkNode pf (walkDir pf (fsys ctx) path) ?c0")
       (simp_all add: handleDir_def Let_def underCap_def)
qed

lemma excludeParts_cap:
  "underCap pf ctx \<Longrightarrow> holds (underCap pf) (atCap pf) (excludeParts pf parts ctx)"
proof (induction parts arbitrary: ctx)
  case Nil
  then show ?case by simp
next
  case (Cons part parts)
  show ?case
  proof (cases "part = [] \<or> Compile pf part \<noteq> None")
    case True
    then show ?thesis
      using Cons.IH [of ctx] Cons.IH [of "ctx\<lparr>exclude := exclude ctx @ [the (Compile pf part)]\<rparr>"]
        Cons.prems
      by (auto simp: underCap_def)
  next
    case False
    then have f: "part \<noteq> []" "Compile pf part = None" by simp_all
    show ?thesis
    proof (cases "msg pf ctx (''Error in exlude regexp: '' @ part)")
      case (Panics p c)
      with msg_cap [OF Cons.prems, of "''Error in exlude regexp: '' @ part"] f
      show ?thesis by simp
    next
      case (Returns v c)
      with msg_cap [OF Cons.prems, of "''Error in exlude regexp: '' @ part"]
      have "underCap pf c" by simp
      from Cons.IH [OF this] Returns f show ?thesis by simp
    qed
  qed
qed

lemma parseExclude_cap:
  "underCap pf ctx \<Longrightarrow> holds (underCap pf) (atCap pf) (parseExclude pf ctx arg ext)"
  unfolding parseExclude_def by (rule excludeParts_cap) (simp add: underCap_def)

lemma holds_case_outcome:
  "holds P R (case r of Panics p c \<Rightarrow> Panics p c | Returns v c \<Rightarrow> Returns (f v) (g c))
     = holds (\<lambda>c. P (g c)) R r"
  by (cases r) simp_all

lemma processNonPathLine_cap:
  assumes "underCap pf ctx"
  shows "holds (underCap pf) (atCap pf) (processNonPathLine pf ctx line)"
proof -
  have pe: "holds (\<lambda>c. underCap pf (print x c)) (atCap pf) (parseExclude pf ctx arg ext)"
    for x arg ext
    using parseExclude_cap [OF assms, of arg ext]
    by (cases "parseExclude pf ctx arg ext") (simp_all add: underCap_def)
  from assms show ?thesis
    unfolding processNonPathLine_def
    by (simp add: Let_def holds_case_outcome pe split: option.splits) (simp add: underCap_def)
qed


lemma lineStep_cap:
  assumes "underCap pf ctx"
  shows "holds (underCap pf) (atCap pf) (lineStep pf ctx l)"
proof (cases "processNonPathLine pf ctx (TrimSpace l)")
  case (Panics p c)
  with processNonPathLine_cap [OF assms, of "TrimSpace l"] show ?thesis
    by (simp add: lineStep_def)
next
  case (Returns b c)
  with processNonPathLine_cap [OF assms, of "TrimSpace l"] have c: "underCap pf c" by simp
  then have pc: "underCap pf (print x c)" for x by (simp add: underCap_def)
  show ?thesis
  proof (cases "b \<or> targetPath c = []")
    case True
    with Returns c pc [of "OutFatal errText"] show ?thesis
      by (cases b) (simp_all add: lineStep_def)
  next
    case False
    show ?thesis
    proof (cases "stat pf (fsys c) (TrimSpace l)")
      case None
      with Returns False msg_cap [OF c, of "''Cannot stat, skipping: '' @ TrimSpace l"]
      show ?thesis
        by (cases "msg pf c (''Cannot stat, skipping: '' @ TrimSpace l)")
           (simp_all add: lineStep_def)
    next
      case (Some info)
      show ?thesis
      proof (cases "IsDir info")
        case True
        with Returns False Some
          handleDir_cap [OF pc, of "OutSource (TrimSpace l)" "TrimSpace l"]
        show ?thesis
          by (cases "handleDir pf (print (OutSource (TrimSpace l)) c) (TrimSpace l)")
             (simp_all add: lineStep_def)
      next
        case nd: False
        with Returns False Some
          handleFile_cap [OF pc, of "OutSource (TrimSpace l)" "TrimSpace l" info]
        show ?thesis
          by (cases "handleFile pf (print (OutSource (TrimSpace l)) c) (TrimSpace l) info")
             (simp_all add: lineStep_def)
      qed
    qed
  qed
qed

lemma configLoop_holds:
  assumes each: "\<And>ctx l. l \<in> set config \<Longrightarrow> P ctx \<Longrightarrow> holds P R (lineStep pf ctx l)"
    and start: "P ctx"
  shows "holds P R (configLoop pf config ctx)"
  using each start
proof (induction config arbitrary: ctx)
  case Nil
  then show ?case by simp
next
  case (Cons l ls)
  have first: "holds P R (lineStep pf ctx l)" using Cons.prems by simp
  show ?case
  proof (cases "lineStep pf ctx l")
    case (Panics p c)
    with first show ?thesis by (simp add: configLoop_step del: configLoop.simps)
  next
    case (Returns e c)
    with first have c: "P c" by simp
    then have "holds P R (configLoop pf ls c)" using Cons.IH Cons.prems(1) by simp
    with Returns c show ?thesis
      by (cases e) (simp_all add: configLoop_step del: configLoop.simps)
  qed
qed

lemma configLoop_cap:
  "underCap pf ctx \<Longrightarrow> holds (underCap pf) (atCap pf) (configLoop pf config ctx)"
  by (rule configLoop_holds) (simp_all add: lineStep_cap)

lemma configLoop_stops:
  "configLoop pf config ctx = Panics p c \<Longrightarrow> configLoop pf (config @ later) ctx = Panics p c"
proof (induction config arbitrary: ctx)
  case Nil
  then show ?case by simp
next
  case (Cons l ls)
  then show ?case
    by (cases "lineStep pf ctx l")
       (auto simp: configLoop_step simp del: configLoop.simps split: option.splits)
qed

lemma walkNodes_stops:
  "walkNodes pf ns ctx = Panics p c \<Longrightarrow> walkNodes pf (ns @ later) ctx = Panics p c"
proof (induction ns arbitrary: ctx)
  case Nil
  then show ?case by simp
next
  case (Cons n ns)
  then show ?case by (cases "walkNode pf n ctx") auto
qed

lemma initial_underCap: "0 < maxErrors pf \<Longrightarrow> underCap pf (initialContext w dry)"
  by (simp add: underCap_def initialContext_def)

subsection \<open>The failures of one file\<close>



lemma copyContext_fields [simp]:
  "msgs (copyContext pf ctx srcPath) = msgs ctx"
  "dryRun (copyContext pf ctx srcPath) = dryRun ctx"
  "count (copyContext pf ctx srcPath) = count (counted pf ctx)"
  by (simp_all add: copyContext_def split: option.splits)



lemma callCopy_count [simp]:
  "count (snd (callCopy pf ctx src dest i)) = count ctx"
  by simp

subsection \<open>A run over destinations that are up to date\<close>

lemma filtered_cong:
  "sameSettings a b \<Longrightarrow> filtered pf a p i = filtered pf b p i"
  by (simp add: filtered_def sameSettings_def)

lemma fileUpToDate_cong:
  "sameSettings a b \<Longrightarrow> fileUpToDate pf a f = fileUpToDate pf b f"
  by (simp add: fileUpToDate_def filtered_cong [of a b] sameSettings_def)

lemma sameSettings_counted: "sameSettings (counted pf c) c"
  by (simp add: sameSettings_def)

lemma handleFile_upToDate:
  assumes "fileUpToDate pf ctx (p, i)"
  shows "handleFile pf ctx p i = Returns () (counted pf ctx)
       \<or> handleFile pf ctx p i = Panics DivideByZero (incFiles ctx)"
  using assms filtered_cong [OF sameSettings_counted, of pf pf ctx p i]
  by (auto simp: handleFile_alt fileUpToDate_def split: option.splits)

lemma nothingCopied_counted: "nothingCopied w c \<Longrightarrow> nothingCopied w (counted pf c)"
  by (simp add: nothingCopied_def counted_def)

lemma nothingCopied_incFiles: "nothingCopied w c \<Longrightarrow> nothingCopied w (incFiles c)"
  by (simp add: nothingCopied_def)

lemma nothingCopied_incDir: "nothingCopied w c \<Longrightarrow> nothingCopied w (incDir c)"
  by (simp add: nothingCopied_def)

lemma sameSettings_incFiles: "sameSettings (incFiles c) c"
  by (simp add: sameSettings_def)

lemma sameSettings_step:
  "sameSettings c ctx \<Longrightarrow> sameSettings (counted pf c) ctx"
  "sameSettings c ctx \<Longrightarrow> sameSettings (incFiles c) ctx"
  by (simp_all add: sameSettings_def)

lemma walkedFiles_cong:
  "exclude c = exclude ctx \<Longrightarrow> walkedFiles pf c n = walkedFiles pf ctx n"
proof (induction n)
  case (FileNode path info)
  show ?case by (cases info) simp_all
next
  case (DirNode path readErr ns)
  then have "map (walkedFiles pf c) ns = map (walkedFiles pf ctx) ns"
    by (intro map_cong [OF refl]) simp
  with DirNode.prems show ?case
    by (simp only: walkedFiles.simps excluded_cong [OF DirNode.prems])
qed

lemma walkNode_holds_walked:
  assumes fileStep: "\<And>c path info. (path, info) \<in> set (walkedFiles pf ctx n) \<Longrightarrow> P c
                   \<Longrightarrow> holds P R (handleFile pf c path info)"
    and dirs: "\<And>c. P c \<Longrightarrow> P (incDir c)"
    and same: "\<And>c. P c \<Longrightarrow> exclude c = exclude ctx"
  shows "P c0 \<Longrightarrow> holds P R (walkNode pf n c0)"
  using fileStep
proof (induction n arbitrary: c0)
  case (FileNode path info)
  show ?case
  proof (cases info)
    case None
    with FileNode.prems(1) show ?thesis by (simp add: walkCallback_def)
  next
    case (Some i)
    with FileNode.prems(2) [of path i c0] FileNode.prems(1) show ?thesis
      by (cases "handleFile pf c0 path i") (simp_all add: walkCallback_def)
  qed
next
  case (DirNode path readErr ns)
  have ex: "excluded pf c path = excluded pf ctx path" if "P c" for c
    using same [OF that] by (rule excluded_cong)
  show ?case
  proof (cases "excluded pf ctx path")
    case True
    with ex [OF DirNode.prems(1)] DirNode.prems(1) show ?thesis
      by (simp add: walkCallback_def)
  next
    case False
    have below: "holds P R (walkNodes pf ns c)" if "P c" for c
    proof (rule walkNodes_holds [where P = P and R = R])
      show "P c" by (rule that)
    next
      fix n c'
      assume n: "n \<in> set ns" and c': "P c'"
      show "holds P R (walkNode pf n c')"
      proof (rule DirNode.IH [OF n c'])
        fix path' info' c''
        assume "(path', info') \<in> set (walkedFiles pf ctx n)" "P c''"
        with n False show "holds P R (handleFile pf c'' path' info')"
          using DirNode.prems(2) [of path' info' c''] by auto
      qed
    qed
    have inc: "P (incDir c0)" "P (incDir (incDir c0))"
      using dirs DirNode.prems(1) by simp_all
    with False ex [OF DirNode.prems(1)] ex [OF inc(1)] below show ?thesis
      by (simp add: walkCallback_def)
  qed
qed

lemma walkNode_upToDate:
  assumes files: "list_all (fileUpToDate pf ctx) (walkedFiles pf ctx n)"
    and start: "nothingCopied w ctx"
  shows "nothingCopied w (ctxOf (walkNode pf n ctx))"
proof -
  let ?P = "\<lambda>c. nothingCopied w c \<and> sameSettings c ctx"
  have "holds ?P (\<lambda>p. ?P) (walkNode pf n ctx)"
  proof (rule walkNode_holds_walked [where ctx = ctx])
    show "?P ctx" using start by (simp add: sameSettings_def)
  next
    fix c assume "?P c"
    then show "?P (incDir c)" by (auto simp: nothingCopied_def sameSettings_def)
  next
    fix c assume "?P c"
    then show "exclude c = exclude ctx" by (simp add: sameSettings_def)
  next
    fix c path info
    assume f: "(path, info) \<in> set (walkedFiles pf ctx n)" and c: "?P c"
    from files f have "fileUpToDate pf ctx (path, info)" by (simp add: list_all_iff)
    with c have "fileUpToDate pf c (path, info)" using fileUpToDate_cong [of c ctx] by simp
    from handleFile_upToDate [OF this] c
    show "holds ?P (\<lambda>p. ?P) (handleFile pf c path info)"
      using nothingCopied_counted [of w c pf] nothingCopied_incFiles [of w c]
        sameSettings_step(1) [of c ctx pf] sameSettings_step(2) [of c ctx]
      by auto
  qed
  then show ?thesis by (cases "walkNode pf n ctx") simp_all
qed

lemma handleDir_upToDate:
  assumes files: "list_all (fileUpToDate pf ctx) (walkedFiles pf ctx (walkDir pf (fsys ctx) path))"
    and start: "nothingCopied w ctx"
  shows "nothingCopied w (ctxOf (handleDir pf ctx path))"
proof -
  let ?c0 = "ctx\<lparr>count := \<lparr>dir = 0, files = 0, copied = 0\<rparr>\<rparr>"
  have s: "sameSettings ?c0 ctx" by (simp add: sameSettings_def)
  have f0: "list_all (fileUpToDate pf ?c0) (walkedFiles pf ?c0 (walkDir pf (fsys ctx) path))"
    using files fileUpToDate_cong [OF s, of pf]
      walkedFiles_cong [of ?c0 ctx pf "walkDir pf (fsys ctx) path"]
    by (simp add: list_all_iff)
  have n0: "nothingCopied w ?c0" using start by (simp add: nothingCopied_def)
  from walkNode_upToDate [OF f0 n0]
  show ?thesis
    by (cases "walkNode pf (walkDir pf (fsys ctx) path) ?c0")
       (simp_all add: handleDir_def Let_def nothingCopied_def)
qed

lemma excludeParts_keeps:
  "fsys (ctxOf (excludeParts pf parts ctx)) = fsys ctx
   \<and> calls (ctxOf (excludeParts pf parts ctx)) = calls ctx
   \<and> count (ctxOf (excludeParts pf parts ctx)) = count ctx
   \<and> out (ctxOf (excludeParts pf parts ctx)) = out ctx"
proof (induction parts arbitrary: ctx)
  case Nil
  show ?case by simp
next
  case (Cons part parts)
  show ?case
    using Cons.IH [of ctx] Cons.IH [of "ctx\<lparr>exclude := exclude ctx @ [the (Compile pf part)]\<rparr>"]
      Cons.IH [of "ctx\<lparr>msgs := msgs ctx @ [''Error in exlude regexp: '' @ part]\<rparr>"]
    by (auto simp: msg_cases split: option.splits)
qed

lemma parseExclude_keeps:
  "fsys (ctxOf (parseExclude pf ctx arg ext)) = fsys ctx
   \<and> calls (ctxOf (parseExclude pf ctx arg ext)) = calls ctx
   \<and> count (ctxOf (parseExclude pf ctx arg ext)) = count ctx
   \<and> out (ctxOf (parseExclude pf ctx arg ext)) = out ctx"
  using excludeParts_keeps [of pf "SplitCommas (TrimSpace arg)" ctx]
    excludeParts_keeps [of pf "SplitCommas (TrimSpace arg)" "ctx\<lparr>exclude := []\<rparr>"]
  by (simp add: parseExclude_def)

lemma nothingCopied_parseExclude:
  "nothingCopied w ctx \<Longrightarrow> nothingCopied w (ctxOf (parseExclude pf ctx arg ext))"
  using parseExclude_keeps [of pf ctx arg ext] by (simp add: nothingCopied_def)

lemma ctxOf_directive:
  "ctxOf (case r of Panics p c \<Rightarrow> Panics p c | Returns v c \<Rightarrow> Returns True (print x c))
     = (case r of Panics p c \<Rightarrow> c | Returns v c \<Rightarrow> print x c)"
  by (cases r) simp_all

lemma nothingCopied_print:
  "reportsNoCopy x \<Longrightarrow> nothingCopied w c \<Longrightarrow> nothingCopied w (print x c)"
  by (simp add: nothingCopied_def)

lemma nothingCopied_directive:
  assumes "nothingCopied w ctx"
  shows "nothingCopied w (ctxOf (processNonPathLine pf ctx line))"
proof -
  have pe: "nothingCopied w
      (case parseExclude pf ctx arg ext of Panics p c \<Rightarrow> c | Returns v c \<Rightarrow> print x c)"
    if "reportsNoCopy x" for arg ext x
    using nothingCopied_parseExclude [OF assms, of pf arg ext] that
    by (cases "parseExclude pf ctx arg ext") (simp_all add: nothingCopied_print)
  from assms have basic: "nothingCopied w (ctx\<lparr>targetPath := t\<rparr>)"
    "nothingCopied w (ctx\<lparr>startDate := d\<rparr>)" "nothingCopied w (ctx\<lparr>maxSize := n\<rparr>)" for t d n
    by (simp_all add: nothingCopied_def)
  show ?thesis
    unfolding processNonPathLine_def
    using assms
    by (simp add: Let_def ctxOf_directive pe nothingCopied_print basic split: option.splits)
qed

lemma returns_False_sourceLine:
  "processNonPathLine pf ctx line = Returns False c \<Longrightarrow> sourceLine line \<and> c = ctx"
  by (auto simp: processNonPathLine_def sourceLine_def Let_def
      split: option.splits outcome.splits if_splits)

lemma sameSettings_print: "sameSettings (print x c) c"
  by (simp add: sameSettings_def)

lemma nothingCopied_lineStep:
  assumes start: "nothingCopied w ctx" and line: "lineUpToDate pf ctx l"
  shows "nothingCopied w (ctxOf (lineStep pf ctx l))"
proof (cases "processNonPathLine pf ctx (TrimSpace l)")
  case (Panics p c)
  with nothingCopied_directive [OF start, of pf "TrimSpace l"] show ?thesis
    by (simp add: lineStep_def)
next
  case (Returns b c)
  show ?thesis
  proof (cases b)
    case True
    with Returns nothingCopied_directive [OF start, of pf "TrimSpace l"] show ?thesis
      by (simp add: lineStep_def)
  next
    case False
    with Returns returns_False_sourceLine [of pf ctx "TrimSpace l" c]
    have src: "sourceLine (TrimSpace l)" and c: "c = ctx" by simp_all
    let ?c1 = "print (OutSource (TrimSpace l)) ctx"
    have n1: "nothingCopied w ?c1" using start by (simp add: nothingCopied_print)
    show ?thesis
    proof (cases "targetPath ctx = []")
      case True
      with Returns False c start show ?thesis
        by (simp add: lineStep_def nothingCopied_print)
    next
      case target: False
      show ?thesis
      proof (cases "stat pf (fsys ctx) (TrimSpace l)")
        case None
        with Returns False c target start show ?thesis
          by (simp add: lineStep_def msg_cases nothingCopied_def)
      next
        case (Some info)
        show ?thesis
        proof (cases "IsDir info")
          case True
          with line src target Some
          have "list_all (fileUpToDate pf ctx)
                  (walkedFiles pf ctx (walkDir pf (fsys ctx) (TrimSpace l)))"
            by (simp add: lineUpToDate_def)
          then have "list_all (fileUpToDate pf ?c1)
                  (walkedFiles pf ?c1 (walkDir pf (fsys ?c1) (TrimSpace l)))"
            using fileUpToDate_cong [OF sameSettings_print, of pf "OutSource (TrimSpace l)" ctx]
              walkedFiles_cong [of ?c1 ctx pf "walkDir pf (fsys ctx) (TrimSpace l)"]
            by (simp add: list_all_iff)
          from handleDir_upToDate [OF this n1] Returns False c target Some True
          show ?thesis
            by (cases "handleDir pf ?c1 (TrimSpace l)") (simp_all add: lineStep_def)
        next
          case nd: False
          with line src target Some have "fileUpToDate pf ctx (TrimSpace l, info)"
            by (simp add: lineUpToDate_def)
          then have "fileUpToDate pf ?c1 (TrimSpace l, info)"
            using fileUpToDate_cong [OF sameSettings_print, of pf "OutSource (TrimSpace l)" ctx]
            by simp
          from handleFile_upToDate [OF this] Returns False c target Some nd
            nothingCopied_counted [OF n1, of pf] nothingCopied_incFiles [OF n1]
          show ?thesis by (auto simp: lineStep_def)
        qed
      qed
    qed
  qed
qed

lemma nothingCopied_configLoop:
  "upToDate pf config ctx \<Longrightarrow> nothingCopied w ctx
   \<Longrightarrow> nothingCopied w (ctxOf (configLoop pf config ctx))"
proof (induction config arbitrary: ctx)
  case Nil
  then show ?case by simp
next
  case (Cons l ls)
  from Cons.prems have line: "lineUpToDate pf ctx l" by simp
  note step = nothingCopied_lineStep [OF Cons.prems(2) line]
  show ?case
  proof (cases "lineStep pf ctx l")
    case (Panics p c)
    with step show ?thesis by (simp add: configLoop_step del: configLoop.simps)
  next
    case (Returns e c)
    show ?thesis
    proof (cases e)
      case (Some err)
      with Returns step show ?thesis by (simp add: configLoop_step del: configLoop.simps)
    next
      case None
      with Returns Cons.prems(1) have "upToDate pf ls c" by simp
      from Cons.IH [OF this] step Returns None show ?thesis
        by (simp add: configLoop_step del: configLoop.simps)
    qed
  qed
qed

lemma nothingCopied_deferred:
  "nothingCopied w (ctxOf res) \<Longrightarrow> nothingCopied w (snd (deferred res))"
  by (cases res) (auto simp: deferred_def Let_def nothingCopied_def list_all_iff)

lemma nothingCopied_initial: "nothingCopied w (initialContext w dry)"
  by (simp add: nothingCopied_def initialContext_def)

lemma nothingCopied_Backup:
  "upToDate pf config (initialContext w dry) \<Longrightarrow> nothingCopied w (snd (Backup pf config w dry))"
  unfolding Backup_def
  by (rule nothingCopied_deferred) (rule nothingCopied_configLoop [OF _ nothingCopied_initial])


subsection \<open>A configuration with no target\<close>

text \<open>
  When the lines before the first source line leave the target path empty, the loop stops at
  that source line with the fixed error; the deferred function then decides what is returned.
\<close>

lemma configLoop_append:
  "configLoop pf pre ctx = Returns None c \<Longrightarrow> configLoop pf (pre @ ls) ctx = configLoop pf ls c"
proof (induction pre arbitrary: ctx)
  case Nil
  then show ?case by simp
next
  case (Cons l pre)
  then show ?case
    by (cases "lineStep pf ctx l")
       (auto simp: configLoop_step simp del: configLoop.simps split: option.splits)
qed

lemma no_target_result:
  assumes pre: "configLoop pf pre (initialContext w dry) = Returns None c"
    and target: "targetPath c = []" and src: "sourceLine (TrimSpace src)"
  shows "configLoop pf (pre @ src # rest) (initialContext w dry)
           = Returns (Some TargetPathMustBeSpecified) (print (OutFatal errText) c)"
    and "fst (Backup pf (pre @ src # rest) w dry)
           = (if msgs c = [] then Some TargetPathMustBeSpecified
              else Some (NErrors (length (msgs c))))"
    and "calls (snd (Backup pf (pre @ src # rest) w dry)) = calls c"
    and "fsys (snd (Backup pf (pre @ src # rest) w dry)) = fsys c"
proof -
  show loop: "configLoop pf (pre @ src # rest) (initialContext w dry)
           = Returns (Some TargetPathMustBeSpecified) (print (OutFatal errText) c)"
    using configLoop_append [OF pre, of "src # rest"] lineStep_no_target [OF src target, of pf]
    by (simp add: configLoop_step del: configLoop.simps)
  show "fst (Backup pf (pre @ src # rest) w dry)
           = (if msgs c = [] then Some TargetPathMustBeSpecified
              else Some (NErrors (length (msgs c))))"
    unfolding Backup_def loop by (simp add: deferred_def Let_def)
  show "calls (snd (Backup pf (pre @ src # rest) w dry)) = calls c"
    unfolding Backup_def loop by (simp add: deferred_def Let_def)
  show "fsys (snd (Backup pf (pre @ src # rest) w dry)) = fsys c"
    unfolding Backup_def loop by (simp add: deferred_def Let_def)
qed

subsection \<open>Dry runs\<close>

text \<open>
  In a dry run the engine never calls \<^verbatim>\<open>mkdirAll\<close> or \<^verbatim>\<open>copy\<close>; the only slot it can
  still call is \<^verbatim>\<open>chmod\<close>, and only when \<^verbatim>\<open>isWin\<close> is set.
\<close>

lemma handleFile_dry_run:
  assumes "dryCalls pf ctx"
  shows "dryCalls pf (ctxOf (handleFile pf ctx srcPath srcInfo))"
  using assms by (auto simp: dryCalls_def handleFile_alt split: option.splits)

lemma handleFile_dry_run_reports:
  assumes "dryRun ctx" "\<not> filtered pf (counted pf ctx) srcPath srcInfo"
    "case stat pf (fsys ctx) (destPathOf pf (targetPath ctx) srcPath) of
       None \<Rightarrow> True | Some destInfo \<Rightarrow> ModTime destInfo < ModTime srcInfo"
  shows "out (ctxOf (handleFile pf ctx srcPath srcInfo)) = out ctx @ [OutFile srcPath]"
    and "copied (count (ctxOf (handleFile pf ctx srcPath srcInfo))) = copied (count ctx) + 1"
  using assms
  by (auto simp: handleFile_alt copyOrReport_alt counted_def split: option.splits)

lemma walkCallback_dry_run:
  "dryCalls pf ctx \<Longrightarrow> dryCalls pf (ctxOf (walkCallback pf ctx path isd info))"
  using handleFile_dry_run [of pf ctx path "the info"]
  by (cases info) (simp_all add: walkCallback_ctxOf dryCalls_def)

lemma walkNode_dry_run: "dryCalls pf ctx \<Longrightarrow> dryCalls pf (ctxOf (walkNode pf n ctx))"
  by (rule walkNode_invariant [where P = "dryCalls pf", rotated])
     (simp_all add: walkCallback_dry_run)

lemma ctxOf_directive_dry:
  "dryRun (ctxOf (case r of Panics p c \<Rightarrow> Panics p c | Returns v c \<Rightarrow> Returns True (print x c)))
     = dryRun (ctxOf r)
   \<and> calls (ctxOf (case r of Panics p c \<Rightarrow> Panics p c
                              | Returns v c \<Rightarrow> Returns True (print x c)))
     = calls (ctxOf r)"
  by (cases r) simp_all

lemma excludeParts_dryRun [simp]:
  "dryRun (ctxOf (excludeParts pf parts ctx)) = dryRun ctx"
proof (induction parts arbitrary: ctx)
  case Nil
  show ?case by simp
next
  case (Cons part parts)
  show ?case
    using Cons [of ctx] Cons [of "ctx\<lparr>exclude := exclude ctx @ [the (Compile pf part)]\<rparr>"]
      Cons [of "ctx\<lparr>msgs := msgs ctx @ [''Error in exlude regexp: '' @ part]\<rparr>"]
    by (auto simp: msg_cases split: option.splits)
qed

lemma processNonPathLine_dry_run:
  "dryCalls pf ctx \<Longrightarrow> dryCalls pf (ctxOf (processNonPathLine pf ctx line))"
  using parseExclude_keeps [of pf ctx _ True] parseExclude_keeps [of pf ctx _ False]
  unfolding processNonPathLine_def dryCalls_def
  by (simp add: Let_def ctxOf_directive_dry parseExclude_def split: option.splits)

lemma handleDir_dry_run:
  assumes "dryCalls pf ctx"
  shows "dryCalls pf (ctxOf (handleDir pf ctx path))"
proof -
  let ?c0 = "ctx\<lparr>count := \<lparr>dir = 0, files = 0, copied = 0\<rparr>\<rparr>"
  from assms have "dryCalls pf ?c0" by (simp add: dryCalls_def)
  from walkNode_dry_run [OF this, of "walkDir pf (fsys ctx) path"] show ?thesis
    by (cases "walkNode pf (walkDir pf (fsys ctx) path) ?c0")
       (simp_all add: handleDir_def Let_def dryCalls_def)
qed

lemma lineStep_dry_run:
  assumes "dryCalls pf ctx"
  shows "dryCalls pf (ctxOf (lineStep pf ctx l))"
proof (cases "processNonPathLine pf ctx (TrimSpace l)")
  case (Panics p c)
  with processNonPathLine_dry_run [OF assms, of "TrimSpace l"] show ?thesis
    by (simp add: lineStep_def)
next
  case (Returns b c)
  with processNonPathLine_dry_run [OF assms, of "TrimSpace l"] have c: "dryCalls pf c" by simp
  then have pc: "dryCalls pf (print x c)" for x by (simp add: dryCalls_def)
  have m: "dryCalls pf (ctxOf (msg pf c t))" for t using c by (simp add: dryCalls_def)
  show ?thesis
  proof (cases "stat pf (fsys c) (TrimSpace l)")
    case None
    with Returns c pc [of "OutFatal errText"] m [of "''Cannot stat, skipping: '' @ TrimSpace l"]
    show ?thesis
      by (cases b; cases "msg pf c (''Cannot stat, skipping: '' @ TrimSpace l)")
         (simp_all add: lineStep_def)
  next
    case (Some info)
    with Returns c pc [of "OutFatal errText"]
      handleDir_dry_run [OF pc, of "OutSource (TrimSpace l)" "TrimSpace l"]
      handleFile_dry_run [OF pc, of "OutSource (TrimSpace l)" "TrimSpace l" info]
    show ?thesis
      by (cases b; cases "handleDir pf (print (OutSource (TrimSpace l)) c) (TrimSpace l)";
          cases "handleFile pf (print (OutSource (TrimSpace l)) c) (TrimSpace l) info")
         (simp_all add: lineStep_def)
  qed
qed

lemma configLoop_dry_run:
  assumes "dryCalls pf ctx"
  shows "dryCalls pf (ctxOf (configLoop pf config ctx))"
proof -
  have each: "holds (dryCalls pf) (\<lambda>p. dryCalls pf) (lineStep pf c l)" if "dryCalls pf c" for c l
    using lineStep_dry_run [OF that, of l] by (cases "lineStep pf c l") simp_all
  have "holds (dryCalls pf) (\<lambda>p. dryCalls pf) (configLoop pf config ctx)"
    by (rule configLoop_holds [where P = "dryCalls pf" and R = "\<lambda>p. dryCalls pf"])
       (simp_all add: each assms)
  then show ?thesis by (cases "configLoop pf config ctx") simp_all
qed

lemma Backup_dry_run: "dryCalls pf (snd (Backup pf config w True))"
proof -
  have "dryCalls pf (initialContext w True)" by (simp add: dryCalls_def initialContext_def)
  from configLoop_dry_run [OF this, of config] show ?thesis
    by (cases "configLoop pf config (initialContext w True)")
       (simp_all add: Backup_def deferred_def Let_def dryCalls_def)
qed

subsection \<open>The messages of a run\<close>

text \<open>
  Messages are only added, so a function that returns with none recorded started with
  none and added none; and a panic leaves a message behind, unless it is the division by
  a zero \<open>printDotFileCount\<close>.
\<close>

lemma msg_recorded: "recorded k ctx \<Longrightarrow> holds (recorded k) (panicCause pf) (msg pf ctx m)"
  by (simp add: msg_cases recorded_def panicCause_def)

lemma recorded_cong: "msgs c = msgs ctx \<Longrightarrow> recorded k c = recorded k ctx"
  by (simp add: recorded_def)

lemma copyOrReport_recorded:
  "recorded k ctx \<Longrightarrow> holds (recorded k) (panicCause pf) (copyOrReport pf ctx src dest i)"
  by (simp add: copyOrReport_alt msg_cases recorded_def panicCause_def split: option.splits)

lemma handleFile_recorded:
  "recorded k ctx \<Longrightarrow> holds (recorded k) (panicCause pf) (handleFile pf ctx srcPath srcInfo)"
  by (simp add: handleFile_alt copyOrReport_alt msg_cases recorded_def panicCause_def
      split: option.splits)

lemma walkNode_recorded:
  "recorded k ctx \<Longrightarrow> holds (recorded k) (panicCause pf) (walkNode pf n ctx)"
  by (rule walkNode_holds) (simp_all add: handleFile_recorded recorded_def)

lemma handleDir_recorded:
  assumes "recorded k ctx"
  shows "holds (recorded k) (panicCause pf) (handleDir pf ctx path)"
proof -
  let ?c0 = "ctx\<lparr>count := \<lparr>dir = 0, files = 0, copied = 0\<rparr>\<rparr>"
  from assms have "recorded k ?c0" by (simp add: recorded_def)
  then have "holds (recorded k) (panicCause pf) (walkNode pf (walkDir pf (fsys ctx) path) ?c0)"
    by (rule walkNode_recorded)
  then show ?thesis
    by (cases "walkNode pf (walkDir pf (fsys ctx) path) ?c0")
       (simp_all add: handleDir_def Let_def recorded_def)
qed

lemma excludeParts_recorded:
  "recorded k ctx \<Longrightarrow> holds (recorded k) (panicCause pf) (excludeParts pf parts ctx)"
proof (induction parts arbitrary: ctx)
  case Nil
  then show ?case by simp
next
  case (Cons part parts)
  show ?case
  proof (cases "part = [] \<or> Compile pf part \<noteq> None")
    case True
    then show ?thesis
      using Cons.IH [of ctx] Cons.IH [of "ctx\<lparr>exclude := exclude ctx @ [the (Compile pf part)]\<rparr>"]
        Cons.prems
      by (auto simp: recorded_def)
  next
    case False
    then have f: "part \<noteq> []" "Compile pf part = None" by simp_all
    show ?thesis
    proof (cases "msg pf ctx (''Error in exlude regexp: '' @ part)")
      case (Panics p c)
      with msg_recorded [OF Cons.prems, of pf "''Error in exlude regexp: '' @ part"] f
      show ?thesis by simp
    next
      case (Returns v c)
      with msg_recorded [OF Cons.prems, of pf "''Error in exlude regexp: '' @ part"]
      have "recorded k c" by simp
      from Cons.IH [OF this] Returns f show ?thesis by simp
    qed
  qed
qed

lemma parseExclude_recorded:
  "recorded k ctx \<Longrightarrow> holds (recorded k) (panicCause pf) (parseExclude pf ctx arg ext)"
  unfolding parseExclude_def by (rule excludeParts_recorded) (simp add: recorded_def)

lemma processNonPathLine_recorded:
  assumes "recorded k ctx"
  shows "holds (recorded k) (panicCause pf) (processNonPathLine pf ctx line)"
proof -
  have pe: "holds (\<lambda>c. recorded k (print x c)) (panicCause pf) (parseExclude pf ctx arg ext)"
    for x arg ext
    using parseExclude_recorded [OF assms, of pf arg ext]
    by (cases "parseExclude pf ctx arg ext") (simp_all add: recorded_def)
  from assms show ?thesis
    unfolding processNonPathLine_def
    by (simp add: Let_def holds_case_outcome pe split: option.splits) (simp add: recorded_def)
qed


lemma lineStep_recorded:
  assumes "recorded k ctx"
  shows "holds (recorded k) (panicCause pf) (lineStep pf ctx l)"
proof (cases "processNonPathLine pf ctx (TrimSpace l)")
  case (Panics p c)
  with processNonPathLine_recorded [OF assms, of pf "TrimSpace l"] show ?thesis
    by (simp add: lineStep_def)
next
  case (Returns b c)
  with processNonPathLine_recorded [OF assms, of pf "TrimSpace l"] have c: "recorded k c" by simp
  then have pc: "recorded k (print x c)" for x by (simp add: recorded_def)
  show ?thesis
  proof (cases "b \<or> targetPath c = []")
    case True
    with Returns c pc [of "OutFatal errText"] show ?thesis
      by (cases b) (simp_all add: lineStep_def)
  next
    case False
    show ?thesis
    proof (cases "stat pf (fsys c) (TrimSpace l)")
      case None
      with Returns False msg_recorded [OF c, of pf "''Cannot stat, skipping: '' @ TrimSpace l"]
      show ?thesis
        by (cases "msg pf c (''Cannot stat, skipping: '' @ TrimSpace l)")
           (simp_all add: lineStep_def)
    next
      case (Some info)
      show ?thesis
      proof (cases "IsDir info")
        case True
        with Returns False Some
          handleDir_recorded [OF pc [of "OutSource (TrimSpace l)"], of pf "TrimSpace l"]
        show ?thesis
          by (cases "handleDir pf (print (OutSource (TrimSpace l)) c) (TrimSpace l)")
             (simp_all add: lineStep_def)
      next
        case nd: False
        with Returns False Some
          handleFile_recorded [OF pc [of "OutSource (TrimSpace l)"], of pf "TrimSpace l" info]
        show ?thesis
          by (cases "handleFile pf (print (OutSource (TrimSpace l)) c) (TrimSpace l) info")
             (simp_all add: lineStep_def)
      qed
    qed
  qed
qed

lemma configLoop_recorded:
  "recorded k ctx \<Longrightarrow> holds (recorded k) (panicCause pf) (configLoop pf config ctx)"
  by (rule configLoop_holds) (simp_all add: lineStep_recorded)

lemma walkNodes_recorded:
  "recorded k ctx \<Longrightarrow> holds (recorded k) (panicCause pf) (walkNodes pf ns ctx)"
  by (rule walkNodes_holds [where P = "recorded k" and R = "panicCause pf"])
     (simp_all add: walkNode_recorded)

lemma clean_before:
  assumes "recorded 1 c \<Longrightarrow> holds (recorded 1) R r" and "r = Returns v m" and "msgs m = []"
  shows "msgs c = []"
proof (rule ccontr)
  assume "msgs c \<noteq> []"
  then have "recorded 1 c" by (cases "msgs c") (simp_all add: recorded_def)
  from assms(1) [OF this] assms(2,3) show False by (simp add: recorded_def)
qed


subsection \<open>What a run without errors leaves behind\<close>

text \<open>
  With slots that keep modification times, a call of \<open>handleFile\<close> that is not a dry run
  and adds no message leaves the file up to date: it was filtered out, its destination
  was not older, or the copy succeeded. Later writes leave it so, since no path gets
  older; hence every file a walk, a line and the loop have handed to \<open>handleFile\<close> is up
  to date in the filesystem they end with.
\<close>

lemma notOlder_refl: "notOlder pf w w"
  by (simp add: notOlder_def)

lemma notOlder_trans: "notOlder pf a b \<Longrightarrow> notOlder pf b c \<Longrightarrow> notOlder pf a c"
  unfolding notOlder_def by (meson order_trans)

lemma follows_refl: "follows a a"
  by (simp add: follows_def)

lemma filtered_follows:
  "follows a b \<Longrightarrow> filtered pf a p i \<Longrightarrow> filtered pf b p i"
  by (auto simp: filtered_def follows_def split: if_splits)

lemma fileUpToDate_later:
  assumes "fileUpToDate pf a f" "notOlder pf (fsys a) (fsys b)" "follows a b"
  shows "fileUpToDate pf b f"
proof (cases "filtered pf a (fst f) (snd f)")
  case True
  with assms(3) show ?thesis by (simp add: fileUpToDate_def filtered_follows)
next
  case False
  with assms(1) obtain d where d: "stat pf (fsys a) (destPathOf pf (targetPath a) (fst f)) = Some d"
      "\<not> ModTime d < ModTime (snd f)"
    by (auto simp: fileUpToDate_def split: option.splits)
  from assms(2) d(1) obtain d' where
    "stat pf (fsys b) (destPathOf pf (targetPath a) (fst f)) = Some d'" "ModTime d \<le> ModTime d'"
    unfolding notOlder_def by blast
  with d(2) assms(3) show ?thesis by (simp add: fileUpToDate_def follows_def)
qed

lemma handleFile_first_run:
  assumes contract: "writesKeepTimes pf" and wet: "\<not> dryRun c"
    and run: "handleFile pf c p i = Returns v m" and clean: "msgs m = []"
  shows "notOlder pf (fsys c) (fsys m)" and "fileUpToDate pf m (p, i)"
proof -
  let ?d = "destPathOf pf (targetPath c) p"
  have ch: "notOlder pf w (chmod pf w name perm)" for w name perm
    using contract by (simp add: writesKeepTimes_def)
  have mk: "notOlder pf w (snd (mkdirAll pf w path perm))" for w path perm
    using contract by (simp add: writesKeepTimes_def)
  have cpd: "\<exists>i'. stat pf (snd (copy pf w src dest si)) dest = Some i' \<and> ModTime si \<le> ModTime i'"
    if "fst (copy pf w src dest si) = None" for w src dest si
    using contract that unfolding writesKeepTimes_def by blast
  have cpo: "\<exists>i'. stat pf (snd (copy pf w src dest si)) q = Some i' \<and> ModTime j \<le> ModTime i'"
    if "fst (copy pf w src dest si) = None" "q \<noteq> dest" "stat pf w q = Some j" for w src dest si q j
    using contract that unfolding writesKeepTimes_def by blast
  have copied: "notOlder pf (fsys c) (snd (copy pf w p ?d i))
       \<and> (\<exists>i'. stat pf (snd (copy pf w p ?d i)) ?d = Some i' \<and> ModTime i \<le> ModTime i')"
    if ok: "fst (copy pf w p ?d i) = None" and before: "notOlder pf (fsys c) w"
      and older: "case stat pf (fsys c) ?d of None \<Rightarrow> True | Some j \<Rightarrow> ModTime j < ModTime i"
    for w
  proof
    show "\<exists>i'. stat pf (snd (copy pf w p ?d i)) ?d = Some i' \<and> ModTime i \<le> ModTime i'"
      by (rule cpd [OF ok])
    then obtain i' where i': "stat pf (snd (copy pf w p ?d i)) ?d = Some i'" "ModTime i \<le> ModTime i'"
      by blast
    show "notOlder pf (fsys c) (snd (copy pf w p ?d i))"
      unfolding notOlder_def
    proof (intro allI impI)
      fix q j assume q: "stat pf (fsys c) q = Some j"
      show "\<exists>j'. stat pf (snd (copy pf w p ?d i)) q = Some j' \<and> ModTime j \<le> ModTime j'"
      proof (cases "q = ?d")
        case True
        with q older i' show ?thesis by auto
      next
        case False
        from before q obtain k where k: "stat pf w q = Some k" "ModTime j \<le> ModTime k"
          unfolding notOlder_def by blast
        from cpo [OF ok False k(1)] k(2) show ?thesis by force
      qed
    qed
  qed
  have both: "notOlder pf (fsys c) (fsys m) \<and> fileUpToDate pf m (p, i)"
  proof (cases "filtered pf (counted pf c) p i")
    case True
    with run wet have "m = counted pf c" by (simp add: handleFile_alt split: if_splits)
    with True show ?thesis by (simp add: notOlder_refl fileUpToDate_def)
  next
    case nf: False
    show ?thesis
    proof (cases "stat pf (fsys c) ?d")
      case None
      let ?c1 = "snd (callMkdirAll pf (counted pf c) (Dir pf ?d) (destDirPerm pf))"
      let ?w1 = "snd (mkdirAll pf (fsys c) (Dir pf ?d) (destDirPerm pf))"
      from run wet nf None clean
      have made: "\<not> fst (mkdirAll pf (fsys c) (Dir pf ?d) (destDirPerm pf))"
        and cp: "copyOrReport pf ?c1 p ?d i = Returns v m"
        by (auto simp: handleFile_alt msg_cases split: if_splits)
      from cp wet clean have ok: "fst (copy pf ?w1 p ?d i) = None"
        and m: "m = incCopied (snd (callCopy pf ?c1 p ?d i))"
        by (auto simp: copyOrReport_alt msg_cases split: option.splits if_splits)
      from copied [OF ok mk] None m nf show ?thesis
        by (auto simp: fileUpToDate_def)
    next
      case (Some j)
      show ?thesis
      proof (cases "ModTime j < ModTime i")
        case False
        with run wet nf Some have "m = counted pf c"
          by (simp add: handleFile_alt split: if_splits)
        with Some False show ?thesis by (simp add: notOlder_refl fileUpToDate_def)
      next
        case True
        let ?c1 = "if isWin pf \<and> Mode j AND 0x80 \<noteq> 0
                   then callChmod pf (counted pf c) ?d (destDirPerm pf) else counted pf c"
        from run wet nf Some True have cp: "copyOrReport pf ?c1 p ?d i = Returns v m"
          by (auto simp: handleFile_alt split: if_splits)
        have before: "notOlder pf (fsys c) (fsys ?c1)"
          by (simp add: ch notOlder_refl)
        from cp wet clean have ok: "fst (copy pf (fsys ?c1) p ?d i) = None"
          and m: "m = incCopied (snd (callCopy pf ?c1 p ?d i))"
          by (auto simp: copyOrReport_alt msg_cases split: option.splits if_splits)
        from copied [OF ok before] Some True m show ?thesis
          by (auto simp: fileUpToDate_def)
      qed
    qed
  qed
  from both show "notOlder pf (fsys c) (fsys m)" "fileUpToDate pf m (p, i)" by simp_all
qed

lemma walkNodes_keeps:
  "dryRun (ctxOf (walkNodes pf ns ctx)) = dryRun ctx
   \<and> exclude (ctxOf (walkNodes pf ns ctx)) = exclude ctx
   \<and> follows ctx (ctxOf (walkNodes pf ns ctx))"
proof (rule walkNodes_invariant
        [where P = "\<lambda>c. dryRun c = dryRun ctx \<and> exclude c = exclude ctx \<and> follows ctx c"])
  show "dryRun ctx = dryRun ctx \<and> exclude ctx = exclude ctx \<and> follows ctx ctx"
    by (simp add: follows_refl)
next
  fix n c
  assume "dryRun c = dryRun ctx \<and> exclude c = exclude ctx \<and> follows ctx c"
  with walkNode_keeps_all [of pf n c]
  show "dryRun (ctxOf (walkNode pf n c)) = dryRun ctx
      \<and> exclude (ctxOf (walkNode pf n c)) = exclude ctx
      \<and> follows ctx (ctxOf (walkNode pf n c))"
    unfolding follows_def by metis
qed

lemma walkNodes_first_run:
  assumes each: "\<And>n c v m. n \<in> set ns \<Longrightarrow> \<not> dryRun c \<Longrightarrow> walkNode pf n c = Returns v m
                 \<Longrightarrow> msgs m = []
                 \<Longrightarrow> notOlder pf (fsys c) (fsys m)
                     \<and> list_all (fileUpToDate pf m) (walkedFiles pf c n)"
  shows "\<not> dryRun c \<Longrightarrow> walkNodes pf ns c = Returns v m \<Longrightarrow> msgs m = []
         \<Longrightarrow> notOlder pf (fsys c) (fsys m)
             \<and> list_all (fileUpToDate pf m) (concat (map (walkedFiles pf c) ns))"
  using each
proof (induction ns arbitrary: c)
  case Nil
  then show ?case by (simp add: notOlder_refl)
next
  case (Cons n ns)
  from Cons.prems(2) obtain v' c' where first: "walkNode pf n c = Returns v' c'"
    and rest: "walkNodes pf ns c' = Returns v m"
    by (cases "walkNode pf n c") simp_all
  from walkNode_keeps [of pf n c] first
  have keep: "dryRun c' = dryRun c" "exclude c' = exclude c" by simp_all
  have clean': "msgs c' = []"
    by (rule clean_before [OF walkNodes_recorded rest Cons.prems(3)])
  from keep Cons.prems(1) have wet': "\<not> dryRun c'" by simp
  have ih: "notOlder pf (fsys c') (fsys m)
      \<and> list_all (fileUpToDate pf m) (concat (map (walkedFiles pf c') ns))"
    by (rule Cons.IH [OF wet' rest Cons.prems(3)]) (rule Cons.prems(4), simp_all)
  have one: "notOlder pf (fsys c) (fsys c') \<and> list_all (fileUpToDate pf c') (walkedFiles pf c n)"
    by (rule Cons.prems(4) [OF _ Cons.prems(1) first clean']) simp
  from walkNodes_keeps [of pf ns c'] rest have fol: "follows c' m" by simp
  have "list_all (fileUpToDate pf m) (walkedFiles pf c n)"
    using one ih fol fileUpToDate_later [of pf c' _ m] by (auto simp: list_all_iff)
  moreover have "walkedFiles pf c' = walkedFiles pf c"
    by (rule ext) (rule walkedFiles_cong [OF keep(2)])
  ultimately show ?case
    using one ih notOlder_trans [of pf "fsys c" "fsys c'" "fsys m"] by simp
qed

lemma walkNode_first_run:
  assumes contract: "writesKeepTimes pf"
  shows "\<not> dryRun c \<Longrightarrow> walkNode pf n c = Returns v m \<Longrightarrow> msgs m = []
         \<Longrightarrow> notOlder pf (fsys c) (fsys m)
             \<and> list_all (fileUpToDate pf m) (walkedFiles pf c n)"
proof (induction n arbitrary: c v m)
  case (FileNode path info)
  show ?case
  proof (cases info)
    case None
    with FileNode.prems show ?thesis by (simp add: walkCallback_def notOlder_refl)
  next
    case (Some i)
    with FileNode.prems(2) obtain v' where run: "handleFile pf c path i = Returns v' m"
      by (cases "handleFile pf c path i") (simp_all add: walkCallback_def)
    from handleFile_first_run [OF contract FileNode.prems(1) run FileNode.prems(3)] Some
    show ?thesis by simp
  qed
next
  case (DirNode path readErr ns)
  show ?case
  proof (cases "excluded pf c path")
    case True
    with DirNode.prems show ?thesis by (simp add: walkCallback_def notOlder_refl)
  next
    case False
    let ?c = "if readErr then incDir (incDir c) else incDir c"
    have ex: "excluded pf (incDir c) path = excluded pf c path"
      by (rule excluded_cong) simp
    from DirNode.prems(2) False ex have run: "walkNodes pf ns ?c = Returns v m"
      by (cases readErr) (simp_all add: walkCallback_def)
    have wet: "\<not> dryRun ?c" using DirNode.prems(1) by simp
    have "notOlder pf (fsys ?c) (fsys m)
        \<and> list_all (fileUpToDate pf m) (concat (map (walkedFiles pf ?c) ns))"
      by (rule walkNodes_first_run [OF _ wet run DirNode.prems(3)]) (rule DirNode.IH)
    moreover have "walkedFiles pf ?c = walkedFiles pf c"
      by (rule ext) (rule walkedFiles_cong, simp)
    moreover have "fsys ?c = fsys c" by simp
    ultimately show ?thesis using False by simp
  qed
qed

lemma handleDir_first_run:
  assumes contract: "writesKeepTimes pf" and wet: "\<not> dryRun c"
    and run: "handleDir pf c path = Returns v m" and clean: "msgs m = []"
  shows "notOlder pf (fsys c) (fsys m)"
    and "list_all (fileUpToDate pf m) (walkedFiles pf c (walkDir pf (fsys c) path))"
proof -
  let ?c0 = "c\<lparr>count := \<lparr>dir = 0, files = 0, copied = 0\<rparr>\<rparr>"
  let ?t = "walkDir pf (fsys c) path"
  from run obtain v' c' where walk: "walkNode pf ?t ?c0 = Returns v' c'"
    and m: "sameSettings m c'" "msgs m = msgs c'"
    by (cases "walkNode pf ?t ?c0")
       (auto simp: handleDir_def Let_def sameSettings_def split: if_splits)
  have wet0: "\<not> dryRun ?c0" using wet by simp
  from clean m have clean': "msgs c' = []" by simp
  from walkNode_first_run [OF contract wet0 walk clean']
  have k: "notOlder pf (fsys c) (fsys c')" "list_all (fileUpToDate pf c') (walkedFiles pf ?c0 ?t)"
    by simp_all
  from k(1) m(1) show "notOlder pf (fsys c) (fsys m)" by (simp add: sameSettings_def)
  from k(2) fileUpToDate_cong [OF m(1), of pf] walkedFiles_cong [of ?c0 c pf ?t]
  show "list_all (fileUpToDate pf m) (walkedFiles pf c ?t)" by (simp add: list_all_iff)
qed

subsection \<open>The settings of two runs of a configuration\<close>

text \<open>A directive sets the same target, size limit and patterns in both runs, and a start
  date that is not earlier in the run whose clock is not behind.\<close>

lemma excludeParts_settings:
  "targetPath (ctxOf (excludeParts pf parts ctx)) = targetPath ctx
   \<and> startDate (ctxOf (excludeParts pf parts ctx)) = startDate ctx
   \<and> maxSize (ctxOf (excludeParts pf parts ctx)) = maxSize ctx"
proof (induction parts arbitrary: ctx)
  case Nil
  show ?case by simp
next
  case (Cons part parts)
  show ?case
    using Cons.IH [of ctx] Cons.IH [of "ctx\<lparr>exclude := exclude ctx @ [the (Compile pf part)]\<rparr>"]
      Cons.IH [of "ctx\<lparr>msgs := msgs ctx @ [''Error in exlude regexp: '' @ part]\<rparr>"]
    by (auto simp: msg_cases split: option.splits)
qed

lemma parseExclude_settings:
  "targetPath (ctxOf (parseExclude pf ctx arg ext)) = targetPath ctx
   \<and> startDate (ctxOf (parseExclude pf ctx arg ext)) = startDate ctx
   \<and> maxSize (ctxOf (parseExclude pf ctx arg ext)) = maxSize ctx
   \<and> dryRun (ctxOf (parseExclude pf ctx arg ext)) = dryRun ctx"
  using excludeParts_settings [of pf "SplitCommas (TrimSpace arg)" ctx]
    excludeParts_settings [of pf "SplitCommas (TrimSpace arg)" "ctx\<lparr>exclude := []\<rparr>"]
  by (simp add: parseExclude_def)

lemma parseExclude_follows:
  assumes "follows c1 c2" "parseExclude pf c1 arg ext = Returns v1 m1"
    "parseExclude pf c2 arg ext = Returns v2 m2"
  shows "follows (print x m1) (print x m2)"
  using assms parseExclude_exclude [OF assms(2)] parseExclude_exclude [OF assms(3)]
    parseExclude_settings [of pf c1 arg ext] parseExclude_settings [of pf c2 arg ext]
  by (simp add: follows_def)

lemma maxAgeRex_line:
  "maxAgeRex line = Some res \<Longrightarrow> line \<noteq> [] \<and> \<not> commentRex line \<and> targetRex line = None"
  by (auto simp: maxAgeRex_def stripPrefix_def commentRex_def targetRex_def prefix_def
      split: if_splits)

lemma ctxOf_directive_wet:
  "dryRun (ctxOf (case r of Panics p c \<Rightarrow> Panics p c | Returns v c \<Rightarrow> Returns True (print x c)))
     = dryRun (ctxOf r)
   \<and> fsys (ctxOf (case r of Panics p c \<Rightarrow> Panics p c
                             | Returns v c \<Rightarrow> Returns True (print x c)))
     = fsys (ctxOf r)"
  by (cases r) simp_all

lemma processNonPathLine_wet:
  "dryRun (ctxOf (processNonPathLine pf ctx line)) = dryRun ctx
   \<and> fsys (ctxOf (processNonPathLine pf ctx line)) = fsys ctx"
  using parseExclude_keeps [of pf ctx _ True] parseExclude_keeps [of pf ctx _ False]
    parseExclude_settings [of pf ctx _ True] parseExclude_settings [of pf ctx _ False]
  unfolding processNonPathLine_def
  by (simp add: Let_def ctxOf_directive_wet split: option.splits)

lemma processNonPathLine_follows:
  assumes fol: "follows c1 c2" and clock: "clockNotBack pf (fsys c2) c1 line"
    and r1: "processNonPathLine pf c1 line = Returns b1 m1"
    and r2: "processNonPathLine pf c2 line = Returns b2 m2"
  shows "follows m1 m2"
proof (cases "line = [] \<or> commentRex line")
  case True
  with r1 r2 have "m1 = c1" "m2 = c2" by (simp_all add: processNonPathLine_def)
  with fol show ?thesis by simp
next
  case live: False
  show ?thesis
  proof (cases "targetRex line")
    case (Some res)
    with live r1 r2 have "m1 = print (OutTarget (TrimSuffix res [Separator pf]))
                                 (c1\<lparr>targetPath := TrimSuffix res [Separator pf]\<rparr>)"
      "m2 = print (OutTarget (TrimSuffix res [Separator pf]))
                  (c2\<lparr>targetPath := TrimSuffix res [Separator pf]\<rparr>)"
      by (auto simp: processNonPathLine_def Let_def)
    with fol show ?thesis by (simp add: follows_def)
  next
    case nt: None
    show ?thesis
    proof (cases "maxAgeRex line")
      case (Some res)
      show ?thesis
      proof (cases "Atoi res")
        case None
        with live nt Some r1 r2 have "m1 = print (OutWarn line) c1" "m2 = print (OutWarn line) c2"
          by (auto simp: processNonPathLine_def Let_def)
        with fol show ?thesis by (simp add: follows_def)
      next
        case (Some days)
        with live nt \<open>maxAgeRex line = Some res\<close> r1 r2
        have "m1 = print (OutSince (since pf (fsys c1) days))
                     (c1\<lparr>startDate := since pf (fsys c1) days\<rparr>)"
          "m2 = print (OutSince (since pf (fsys c2) days))
                  (c2\<lparr>startDate := since pf (fsys c2) days\<rparr>)"
          by (auto simp: processNonPathLine_def Let_def)
        with fol clock Some \<open>maxAgeRex line = Some res\<close> show ?thesis
          by (simp add: follows_def clockNotBack_def)
      qed
    next
      case na: None
      show ?thesis
      proof (cases "maxSizeRex line")
        case (Some res)
        show ?thesis
        proof (cases "ParseInt res")
          case None
          with live nt na Some r1 r2
          have "m1 = print (OutWarn line) c1" "m2 = print (OutWarn line) c2"
            by (auto simp: processNonPathLine_def Let_def)
          with fol show ?thesis by (simp add: follows_def)
        next
          case (Some n)
          with live nt na \<open>maxSizeRex line = Some res\<close> r1 r2
          have "m1 = print (OutMaxSize n) (c1\<lparr>maxSize := n\<rparr>)"
            "m2 = print (OutMaxSize n) (c2\<lparr>maxSize := n\<rparr>)"
            by (auto simp: processNonPathLine_def Let_def)
          with fol show ?thesis by (simp add: follows_def)
        qed
      next
        case ns: None
        show ?thesis
        proof (cases "extendExcludeRex line")
          case (Some res)
          with live nt na ns r1 obtain v1 x1 where
            x1: "parseExclude pf c1 res True = Returns v1 x1" "m1 = print (OutExtendExclude res) x1"
            by (cases "parseExclude pf c1 res True") (auto simp: processNonPathLine_def)
          from live nt na ns Some r2 obtain v2 x2 where
            x2: "parseExclude pf c2 res True = Returns v2 x2" "m2 = print (OutExtendExclude res) x2"
            by (cases "parseExclude pf c2 res True") (auto simp: processNonPathLine_def)
          from parseExclude_follows [OF fol x1(1) x2(1)] x1(2) x2(2) show ?thesis by simp
        next
          case ne: None
          show ?thesis
          proof (cases "excludeRex line")
            case (Some res)
            with live nt na ns ne r1 obtain v1 x1 where
              x1: "parseExclude pf c1 res False = Returns v1 x1" "m1 = print (OutExclude res) x1"
              by (cases "parseExclude pf c1 res False") (auto simp: processNonPathLine_def)
            from live nt na ns ne Some r2 obtain v2 x2 where
              x2: "parseExclude pf c2 res False = Returns v2 x2" "m2 = print (OutExclude res) x2"
              by (cases "parseExclude pf c2 res False") (auto simp: processNonPathLine_def)
            from parseExclude_follows [OF fol x1(1) x2(1)] x1(2) x2(2) show ?thesis by simp
          next
            case None
            with live nt na ns ne r1 r2 have "m1 = c1" "m2 = c2"
              by (auto simp: processNonPathLine_def)
            with fol show ?thesis by simp
          qed
        qed
      qed
    qed
  qed
qed

lemma handleDir_keeps:
  "dryRun (ctxOf (handleDir pf ctx path)) = dryRun ctx
   \<and> targetPath (ctxOf (handleDir pf ctx path)) = targetPath ctx
   \<and> startDate (ctxOf (handleDir pf ctx path)) = startDate ctx
   \<and> maxSize (ctxOf (handleDir pf ctx path)) = maxSize ctx
   \<and> exclude (ctxOf (handleDir pf ctx path)) = exclude ctx"
proof -
  let ?c0 = "ctx\<lparr>count := \<lparr>dir = 0, files = 0, copied = 0\<rparr>\<rparr>"
  from walkNode_keeps_all [of pf "walkDir pf (fsys ctx) path" ?c0] show ?thesis
    by (cases "walkNode pf (walkDir pf (fsys ctx) path) ?c0")
       (simp_all add: handleDir_def Let_def)
qed

lemma lineStep_source:
  assumes "sourceLine (TrimSpace l)"
  shows "lineStep pf c l =
     (if targetPath c = [] then
        Returns (Some TargetPathMustBeSpecified) (print (OutFatal errText) c)
      else
        (case stat pf (fsys c) (TrimSpace l) of
           None \<Rightarrow>
             (case msg pf c (''Cannot stat, skipping: '' @ TrimSpace l) of
                Panics p c' \<Rightarrow> Panics p c'
              | Returns _ c' \<Rightarrow> Returns None c')
         | Some info \<Rightarrow>
             (case (if IsDir info
                    then handleDir pf (print (OutSource (TrimSpace l)) c) (TrimSpace l)
                    else handleFile pf (print (OutSource (TrimSpace l)) c) (TrimSpace l) info) of
                Panics p c' \<Rightarrow> Panics p c'
              | Returns _ c' \<Rightarrow> Returns None c')))"
  by (simp add: lineStep_def sourceLine_returns_False [OF assms])

lemma ctxOf_case_outcome:
  "ctxOf (case r of Panics p c \<Rightarrow> Panics p c | Returns v c \<Rightarrow> Returns x c) = ctxOf r"
  by (cases r) simp_all

lemma lineStep_source_keeps:
  assumes "sourceLine (TrimSpace l)"
  shows "dryRun (ctxOf (lineStep pf c l)) = dryRun c
   \<and> targetPath (ctxOf (lineStep pf c l)) = targetPath c
   \<and> startDate (ctxOf (lineStep pf c l)) = startDate c
   \<and> maxSize (ctxOf (lineStep pf c l)) = maxSize c
   \<and> exclude (ctxOf (lineStep pf c l)) = exclude c"
  using handleDir_keeps [of pf "print (OutSource (TrimSpace l)) c" "TrimSpace l"]
  by (simp add: lineStep_source [OF assms] ctxOf_case_outcome split: option.splits)

lemma lineStep_directive:
  assumes "\<not> sourceLine (TrimSpace l)" "lineStep pf c l = Returns e m"
  shows "processNonPathLine pf c (TrimSpace l) = Returns True m"
proof (cases "processNonPathLine pf c (TrimSpace l)")
  case (Panics p c')
  with assms(2) show ?thesis by (simp add: lineStep_def)
next
  case (Returns b c')
  with assms(1) returns_False_sourceLine [of pf c "TrimSpace l" c'] have b by auto
  with Returns assms(2) show ?thesis by (simp add: lineStep_def)
qed

lemma lineStep_wet: "dryRun (ctxOf (lineStep pf c l)) = dryRun c"
proof (cases "sourceLine (TrimSpace l)")
  case True
  then show ?thesis by (simp add: lineStep_source_keeps)
next
  case False
  show ?thesis
  proof (cases "lineStep pf c l")
    case (Returns e m)
    from lineStep_directive [OF False this] processNonPathLine_wet [of pf c "TrimSpace l"] Returns
    show ?thesis by simp
  next
    case (Panics p m)
    then have "processNonPathLine pf c (TrimSpace l) = Panics p m"
      using False returns_False_sourceLine [of pf c "TrimSpace l"]
      by (cases "processNonPathLine pf c (TrimSpace l)")
         (auto simp: lineStep_def split: bool.splits)
    with processNonPathLine_wet [of pf c "TrimSpace l"] Panics show ?thesis by simp
  qed
qed

lemma lineStep_first_run:
  assumes contract: "writesKeepTimes pf" and wet: "\<not> dryRun c"
    and run: "lineStep pf c l = Returns None m" and clean: "msgs m = []"
  shows "notOlder pf (fsys c) (fsys m)"
    and "sourceLine (TrimSpace l) \<Longrightarrow>
         \<exists>info. stat pf (fsys c) (TrimSpace l) = Some info
           \<and> list_all (fileUpToDate pf m)
               (if IsDir info then walkedFiles pf c (walkDir pf (fsys c) (TrimSpace l))
                else [(TrimSpace l, info)])"
proof -
  let ?line = "TrimSpace l"
  let ?c1 = "print (OutSource ?line) c"
  have src: "notOlder pf (fsys c) (fsys m)
      \<and> (\<exists>info. stat pf (fsys c) ?line = Some info
           \<and> list_all (fileUpToDate pf m)
               (if IsDir info then walkedFiles pf c (walkDir pf (fsys c) ?line)
                else [(?line, info)]))"
    if source: "sourceLine ?line"
  proof (cases "stat pf (fsys c) ?line")
    case None
    with run clean show ?thesis
      by (auto simp: lineStep_source [OF source] msg_cases split: if_splits)
  next
    case (Some info)
    have wet1: "\<not> dryRun ?c1" using wet by simp
    show ?thesis
    proof (cases "IsDir info")
      case True
      with run Some obtain v where dir: "handleDir pf ?c1 ?line = Returns v m"
        by (cases "handleDir pf ?c1 ?line")
           (auto simp: lineStep_source [OF source] split: if_splits)
      from handleDir_first_run [OF contract wet1 dir clean]
        walkedFiles_cong [of ?c1 c pf "walkDir pf (fsys c) ?line"] Some True
      show ?thesis by simp
    next
      case False
      with run Some obtain v where one: "handleFile pf ?c1 ?line info = Returns v m"
        by (cases "handleFile pf ?c1 ?line info")
           (auto simp: lineStep_source [OF source] split: if_splits)
      from handleFile_first_run [OF contract wet1 one clean] Some False
      show ?thesis by simp
    qed
  qed
  show "notOlder pf (fsys c) (fsys m)"
  proof (cases "sourceLine ?line")
    case True
    with src show ?thesis by simp
  next
    case False
    from lineStep_directive [OF False run] processNonPathLine_wet [of pf c ?line]
    show ?thesis by (simp add: notOlder_refl)
  qed
  show "\<exists>info. stat pf (fsys c) ?line = Some info
           \<and> list_all (fileUpToDate pf m)
               (if IsDir info then walkedFiles pf c (walkDir pf (fsys c) ?line)
                else [(?line, info)])"
    if "sourceLine ?line"
    using src [OF that] by simp
qed

lemma configLoop_first_step:
  assumes "configLoop pf (l # ls) c = Returns None m"
  obtains x where "lineStep pf c l = Returns None x" "configLoop pf ls x = Returns None m"
  using assms
  by (cases "lineStep pf c l")
     (auto simp: configLoop_step simp del: configLoop.simps split: option.splits)

lemma configLoop_first_run:
  assumes contract: "writesKeepTimes pf"
  shows "\<not> dryRun c \<Longrightarrow> configLoop pf config c = Returns None m \<Longrightarrow> msgs m = []
         \<Longrightarrow> notOlder pf (fsys c) (fsys m)"
proof (induction config arbitrary: c)
  case Nil
  then show ?case by (simp add: notOlder_refl)
next
  case (Cons l ls)
  from Cons.prems(2) obtain x where step: "lineStep pf c l = Returns None x"
    and rest: "configLoop pf ls x = Returns None m"
    by (rule configLoop_first_step)
  have clean: "msgs x = []"
    by (rule clean_before [OF configLoop_recorded rest Cons.prems(3)])
  from lineStep_wet [of pf c l] step Cons.prems(1) have wet: "\<not> dryRun x" by simp
  from lineStep_first_run(1) [OF contract Cons.prems(1) step clean]
    Cons.IH [OF wet rest Cons.prems(3)]
  show ?case by (rule notOlder_trans)
qed

subsection \<open>The second run\<close>

text \<open>
  A second run of the configuration, on the filesystem a first run without errors has
  left, with the sources as the first run found them: line by line it has the settings
  of the first run and finds every file up to date.
\<close>

lemma second_run_upToDate:
  assumes contract: "writesKeepTimes pf"
  shows "\<not> dryRun c1 \<Longrightarrow> configLoop pf config c1 = Returns None m1 \<Longrightarrow> msgs m1 = []
         \<Longrightarrow> notOlder pf (fsys m1) w' \<Longrightarrow> sourcesKept pf w' config c1
         \<Longrightarrow> follows c1 c2 \<Longrightarrow> nothingCopied w' c2 \<Longrightarrow> upToDate pf config c2"
proof (induction config arbitrary: c1 c2)
  case Nil
  show ?case by simp
next
  case (Cons l ls)
  let ?line = "TrimSpace l"
  note wet = Cons.prems(1) and clean = Cons.prems(3) and later = Cons.prems(4)
    and fol = Cons.prems(6) and nc = Cons.prems(7)
  from Cons.prems(2) obtain x1 where step1: "lineStep pf c1 l = Returns None x1"
    and rest1: "configLoop pf ls x1 = Returns None m1"
    by (rule configLoop_first_step)
  have clean1: "msgs x1 = []"
    by (rule clean_before [OF configLoop_recorded rest1 clean])
  from lineStep_wet [of pf c1 l] step1 wet have wet1: "\<not> dryRun x1" by simp
  from Cons.prems(5) step1 have clock: "clockNotBack pf w' c1 ?line"
    and kept: "sourceKept pf w' c1 ?line" and kept1: "sourcesKept pf w' ls x1"
    by simp_all
  from nc have w': "fsys c2 = w'" by (simp add: nothingCopied_def)
  have after: "notOlder pf (fsys x1) w'"
    using configLoop_first_run [OF contract wet1 rest1 clean] later by (rule notOlder_trans)
  have same: "follows x1 c2" "exclude c1 = exclude c2" "targetPath c1 = targetPath c2"
    if "sourceLine ?line"
    using lineStep_source_keeps [OF that, of pf c1] step1 fol by (simp_all add: follows_def)
  have line: "lineUpToDate pf c2 l"
  proof (cases "sourceLine ?line \<and> targetPath c2 \<noteq> []")
    case False
    then show ?thesis by (auto simp: lineUpToDate_def)
  next
    case True
    then have source: "sourceLine ?line" and target: "targetPath c1 \<noteq> []"
      using same(3) by simp_all
    from lineStep_first_run(2) [OF contract wet step1 clean1 source]
    obtain info where info: "stat pf (fsys c1) ?line = Some info"
      and files: "list_all (fileUpToDate pf x1)
               (if IsDir info then walkedFiles pf c1 (walkDir pf (fsys c1) ?line)
                else [(?line, info)])"
      by blast
    from kept source target info have stat': "stat pf w' ?line = Some info"
      and walk': "IsDir info \<Longrightarrow> walkDir pf w' ?line = walkDir pf (fsys c1) ?line"
      by (simp_all add: sourceKept_def)
    have "fileUpToDate pf c2 f" if "fileUpToDate pf x1 f" for f
      using that after same(1) [OF source] w' by (auto intro: fileUpToDate_later)
    with files have "list_all (fileUpToDate pf c2)
               (if IsDir info then walkedFiles pf c1 (walkDir pf (fsys c1) ?line)
                else [(?line, info)])"
      by (auto simp: list_all_iff)
    moreover have "walkedFiles pf c2 n = walkedFiles pf c1 n" for n
      using same(2) [OF source] by (intro walkedFiles_cong) simp
    ultimately show ?thesis
      using True stat' walk' w' by (auto simp: lineUpToDate_def)
  qed
  have "upToDate pf ls x2" if step2: "lineStep pf c2 l = Returns None x2" for x2
  proof -
    from nothingCopied_lineStep [OF nc line] step2 have nc2: "nothingCopied w' x2" by simp
    have fol2: "follows x1 x2"
    proof (cases "sourceLine ?line")
      case True
      from lineStep_source_keeps [OF True, of pf c1] lineStep_source_keeps [OF True, of pf c2]
        step1 step2 fol
      show ?thesis by (simp add: follows_def)
    next
      case False
      from clock w' have "clockNotBack pf (fsys c2) c1 ?line" by simp
      from processNonPathLine_follows [OF fol this lineStep_directive [OF False step1]
          lineStep_directive [OF False step2]]
      show ?thesis .
    qed
    show ?thesis
      by (rule Cons.IH [OF wet1 rest1 clean later kept1 fol2 nc2])
  qed
  with line show ?case by (auto split: outcome.splits option.splits)
qed

lemma deferred_None:
  assumes "fst (deferred res) = None" "printDotFileCount pf \<noteq> 0"
    and "\<And>p c. res = Panics p c \<Longrightarrow> panicCause pf p c"
  shows "\<exists>m. res = Returns None m \<and> msgs m = [] \<and> snd (deferred res) = m"
proof (cases res)
  case (Returns e m)
  with assms(1) show ?thesis by (auto simp: deferred_def Let_def split: if_splits)
next
  case (Panics p c)
  with assms(3) [OF Panics] assms(2) have "msgs c \<noteq> []" by (simp add: panicCause_def)
  with Panics assms(1) show ?thesis by (simp add: deferred_def Let_def)
qed

lemma first_run_returns:
  assumes "fst (Backup pf config w dry) = None" "printDotFileCount pf \<noteq> 0"
  shows "\<exists>m. configLoop pf config (initialContext w dry) = Returns None m \<and> msgs m = []
           \<and> snd (Backup pf config w dry) = m"
proof (rule deferred_None [OF assms [unfolded Backup_def], folded Backup_def])
  fix p c
  assume "configLoop pf config (initialContext w dry) = Panics p c"
  with configLoop_recorded [of 0 "initialContext w dry" pf config]
  show "panicCause pf p c" by (simp add: recorded_def)
qed

lemma first_run_leaves_upToDate:
  assumes contract: "writesKeepTimes pf" and dots: "printDotFileCount pf \<noteq> 0"
    and ok: "fst (Backup pf config w False) = None"
    and kept: "sourcesKept pf (fsys (snd (Backup pf config w False))) config
                 (initialContext w False)"
  shows "upToDate pf config (initialContext (fsys (snd (Backup pf config w False))) dry)"
proof -
  from first_run_returns [OF ok dots] obtain m where
    run: "configLoop pf config (initialContext w False) = Returns None m"
    and clean: "msgs m = []" and m: "snd (Backup pf config w False) = m"
    by blast
  show ?thesis
    unfolding m
  proof (rule second_run_upToDate [OF contract _ run clean notOlder_refl])
    show "\<not> dryRun (initialContext w False)" by (simp add: initialContext_def)
    show "sourcesKept pf (fsys m) config (initialContext w False)" using kept m by simp
    show "follows (initialContext w False) (initialContext (fsys m) dry)"
      by (simp add: follows_def initialContext_def)
    show "nothingCopied (fsys m) (initialContext (fsys m) dry)" by (rule nothingCopied_initial)
  qed
qed

lemma memfs_writesKeepTimes: "writesKeepTimes (testPlatform windows cap)"
  by (auto simp: writesKeepTimes_def notOlder_def testPlatform_def memStat_def memChmod_def
      memMkdirAll_def memCopy_def split: option.splits if_splits)
section \<open>The claims\<close>

text \<open>
  C1. A source line reached while \<open>targetPath\<close> is empty halts the run with the fatal
  "target path must be specified" error, also when messages were recorded before it.
  The run does halt there and calls nothing; but \<open>Backup\<close> returns the fatal error
  through its named result, and the deferred function overwrites that result with the
  number of messages whenever one was recorded. With a malformed exclude pattern before
  the source line the caller gets "1 errors".
\<close>

theorem C1_fatal_error_overwritten:
  "fst (Backup (testPlatform False 100) [''!(notclosed'', ''/any_source''] emptyFs False)
     = Some (NErrors 1)
   \<and> out (snd (Backup (testPlatform False 100) [''!(notclosed'', ''/any_source''] emptyFs False))
     = [OutExclude ''(notclosed'', OutFatal errText, OutErrors 1,
        OutMessage ''Error in exlude regexp: (notclosed'']
   \<and> calls (snd (Backup (testPlatform False 100) [''!(notclosed'', ''/any_source''] emptyFs False))
     = []"
  by code_simp

text \<open>
  C3. In dry-run mode no slot that changes the filesystem is called. \<open>handleFile\<close> guards
  \<open>mkdirAll\<close> and \<open>copy\<close> with \<open>dryRun\<close>, but not \<open>chmod\<close>: on Windows a dry run over a
  file whose copy is older and has the bit \<open>0200\<close> calls \<open>chmod\<close> on the copy.
\<close>

theorem C3_dry_run_calls_chmod:
  "dryRun (snd (Backup (testPlatform True 100)
                  [''=> '' @ winPath [''backup''], winPath [''d1'', ''f1'']] staleFs True))
   \<and> calls (snd (Backup (testPlatform True 100)
                  [''=> '' @ winPath [''backup''], winPath [''d1'', ''f1'']] staleFs True))
     = [Chmod (winPath [''backup'', ''d1'', ''f1'']) 0x1F8]"
  by code_simp

text \<open>
  C4. The claim has \<open>chmod\<close> clear a read-only destination before a file is skipped as up to
  date. \<open>handleFile\<close> returns for an up-to-date destination before it looks at the mode:
  no slot is called and the filesystem is as it was. A \<open>chmod\<close> is only ever issued on
  Windows, on the destination path with \<open>destDirPerm\<close>, for a destination that exists and
  is older than the source, that is on the way to overwriting it.
\<close>

theorem C4_chmod_only_before_overwrite:
  "(\<forall>destInfo. stat pf (fsys ctx) (destPathOf pf (targetPath ctx) srcPath) = Some destInfo
        \<and> \<not> ModTime destInfo < ModTime srcInfo
      \<longrightarrow> calls (ctxOf (handleFile pf ctx srcPath srcInfo)) = calls ctx
        \<and> fsys (ctxOf (handleFile pf ctx srcPath srcInfo)) = fsys ctx)
   \<and> (\<forall>name perm. Chmod name perm \<in> set (drop (length (calls ctx))
                                        (calls (ctxOf (handleFile pf ctx srcPath srcInfo))))
      \<longrightarrow> isWin pf \<and> name = destPathOf pf (targetPath ctx) srcPath \<and> perm = destDirPerm pf
        \<and> (\<exists>destInfo. stat pf (fsys ctx) name = Some destInfo
              \<and> ModTime destInfo < ModTime srcInfo))"
  by (simp add: handleFile_alt split: option.splits)

text \<open>The claim as stated fails: on Windows, a destination that is as new as the source and
  read-only (mode \<open>0444\<close>, no owner-write bit) is skipped without any \<open>chmod\<close>.\<close>

theorem C4_read_only_destination_not_cleared:
  "isWin (testPlatform True 100)
   \<and> stat (testPlatform True 100) readOnlyFs (winPath [''backup'', ''d1'', ''f1''])
       = Some \<lparr>Size = 100, Mode = 0x124, ModTime = 90\<rparr>
   \<and> (0x124 :: FileMode) AND 0x80 = 0
   \<and> \<not> (90 :: int) < ModTime (regular 100 90)
   \<and> calls (ctxOf (handleFile (testPlatform True 100) (winContext readOnlyFs False)
                     (winPath [''d1'', ''f1'']) (regular 100 90))) = []"
  by code_simp

theorem C4_chmod_only_before_overwrite_witness:
  "calls (ctxOf (handleFile (testPlatform True 100) (winContext readOnlyFs False)
                     (winPath [''d1'', ''f1'']) (regular 100 90))) = []
   \<and> fsys (ctxOf (handleFile (testPlatform True 100) (winContext readOnlyFs False)
                     (winPath [''d1'', ''f1'']) (regular 100 90))) = readOnlyFs
   \<and> Chmod (winPath [''backup'', ''d1'', ''f1'']) 0x1F8
       \<in> set (calls (ctxOf (handleFile (testPlatform True 100) (winContext staleFs False)
                     (winPath [''d1'', ''f1'']) (regular 100 90))))
   \<and> (\<exists>destInfo. stat (testPlatform True 100) staleFs (winPath [''backup'', ''d1'', ''f1''])
                     = Some destInfo
          \<and> ModTime destInfo < 90)"
proof -
  let ?pf = "testPlatform True 100"
  let ?src = "winPath [''d1'', ''f1'']"
  let ?dest = "winPath [''backup'', ''d1'', ''f1'']"
  have same: "stat ?pf (fsys (winContext readOnlyFs False))
                 (destPathOf ?pf (targetPath (winContext readOnlyFs False)) ?src)
               = Some \<lparr>Size = 100, Mode = 0x124, ModTime = 90\<rparr>
             \<and> \<not> ModTime \<lparr>Size = 100, Mode = 0x124, ModTime = 90\<rparr> < ModTime (regular 100 90)"
    by code_simp
  have called: "Chmod ?dest 0x1F8
      \<in> set (drop (length (calls (winContext staleFs False)))
               (calls (ctxOf (handleFile ?pf (winContext staleFs False) ?src (regular 100 90)))))"
    by code_simp
  have c0: "calls (winContext readOnlyFs False) = []"
       "fsys (winContext readOnlyFs False) = readOnlyFs"
       "calls (winContext staleFs False) = []" "fsys (winContext staleFs False) = staleFs"
    by (simp_all add: winContext_def initialContext_def)
  from C4_chmod_only_before_overwrite [of ?pf "winContext readOnlyFs False" ?src "regular 100 90"]
    same
  have a: "calls (ctxOf (handleFile ?pf (winContext readOnlyFs False) ?src (regular 100 90))) = []
        \<and> fsys (ctxOf (handleFile ?pf (winContext readOnlyFs False) ?src (regular 100 90)))
            = readOnlyFs"
    unfolding c0 by blast
  from C4_chmod_only_before_overwrite [of ?pf "winContext staleFs False" ?src "regular 100 90"]
    called
  have b: "\<exists>destInfo. stat ?pf staleFs ?dest = Some destInfo
              \<and> ModTime destInfo < ModTime (regular 100 90)"
    unfolding c0 by blast
  have c: "ModTime (regular 100 90) = 90" by (simp add: regular_def)
  from called have d: "Chmod ?dest 0x1F8
      \<in> set (calls (ctxOf (handleFile ?pf (winContext staleFs False) ?src (regular 100 90))))"
    by (rule in_set_dropD)
  from a b c d show ?thesis by simp
qed

text \<open>
  C10. Every call that changes the filesystem gets a path that begins with \<open>targetPath\<close>.
  For \<open>chmod\<close> and the write side of \<open>copy\<close> this holds: they get the destination path,
  which is \<open>targetPath\<close> followed by the source path without its volume. \<open>mkdirAll\<close> gets
  \<open>filepath.Dir\<close> of the destination path, and the source path is only ever the read side
  of \<open>copy\<close>. This is so for one file and for every file of a walk.
\<close>

theorem C10_calls_act_on_destination:
  "(\<exists>new. calls (ctxOf (handleFile pf ctx srcPath srcInfo)) = calls ctx @ new \<and>
      set new \<subseteq> {Chmod (destPathOf pf (targetPath ctx) srcPath) (destDirPerm pf),
                  MkdirAll (Dir pf (destPathOf pf (targetPath ctx) srcPath)) (destDirPerm pf),
                  Copy srcPath (destPathOf pf (targetPath ctx) srcPath) srcInfo})
   \<and> prefix (targetPath ctx) (destPathOf pf (targetPath ctx) srcPath)
   \<and> (\<exists>new. calls (ctxOf (walkNode pf n ctx)) = calls ctx @ new \<and>
        list_all (writesUnder pf (targetPath ctx)) new)"
  using handleFile_calls [of pf ctx srcPath srcInfo] walkNode_callsUnder [of pf ctx n]
  by (auto simp: Let_def callsUnder_def destPathOf_def)

text \<open>The claim as stated fails for \<open>mkdirAll\<close>: the directory of a destination need not
  begin with \<open>targetPath\<close>. With the target \<open>/backup\<close> and the relative source \<open>f\<close> the
  destination is \<open>/backupf\<close> and \<open>mkdirAll\<close> is called on \<open>/\<close>.\<close>

theorem C10_mkdirAll_outside_target:
  "calls (snd (Backup (testPlatform False 100) [''=> /backup'', ''f''] relativeFs False))
     = [MkdirAll ''/'' 0x1F8, Copy ''f'' ''/backupf'' (regular 100 90)]
   \<and> \<not> prefix ''/backup'' ''/''"
  by code_simp

text \<open>
  C9. A target directive with an empty argument (\<open>=>\<close> alone or followed by white space only)
  sets \<open>targetPath\<close> to the empty string, whatever it was, so that the source line after it
  stops the run with the fatal "target path must be specified" error; a run that starts
  with such a directive returns that error.
\<close>

theorem C9_empty_target_directive:
  assumes ws: "list_all asciiSpace ws" and src: "sourceLine (TrimSpace src)"
  shows "configLoop pf ((''=>'' @ ws) # src # rest) ctx
           = Returns (Some TargetPathMustBeSpecified)
               (ctx\<lparr>targetPath := [], out := out ctx @ [OutTarget [], OutFatal errText]\<rparr>)
         \<and> Backup pf ((''=>'' @ ws) # src # rest) w dry
           = (Some TargetPathMustBeSpecified,
              (initialContext w dry)\<lparr>out := [OutTarget [], OutFatal errText]\<rparr>)"
proof -
  have step1: "lineStep pf c (''=>'' @ ws)
                 = Returns None (print (OutTarget []) (c\<lparr>targetPath := []\<rparr>))" for c
    using TrimSpace_arrow [OF ws] by (simp add: lineStep_def empty_target_directive)
  have loop: "configLoop pf ((''=>'' @ ws) # src # rest) c
           = Returns (Some TargetPathMustBeSpecified)
               (c\<lparr>targetPath := [], out := out c @ [OutTarget [], OutFatal errText]\<rparr>)" for c
    using step1 [of c]
      lineStep_no_target [OF src, of "print (OutTarget []) (c\<lparr>targetPath := []\<rparr>)" pf]
    by (simp add: configLoop_step print_def del: configLoop.simps)
  have whole: "Backup pf ((''=>'' @ ws) # src # rest) w dry
           = (Some TargetPathMustBeSpecified,
              (initialContext w dry)\<lparr>out := [OutTarget [], OutFatal errText]\<rparr>)"
    unfolding Backup_def loop by (simp add: deferred_def initialContext_def)
  show ?thesis using loop [of ctx] whole by (rule conjI)
qed

theorem C9_empty_target_directive_witness:
  "list_all asciiSpace ''  '' \<and> sourceLine (TrimSpace ''/data'') \<and>
   Backup (testPlatform False 100) [''=>  '', ''/data''] emptyFs False
     = (Some TargetPathMustBeSpecified,
        (initialContext emptyFs False)\<lparr>out := [OutTarget [], OutFatal errText]\<rparr>)"
proof -
  have a: "list_all asciiSpace ''  ''" by code_simp
  have b: "sourceLine (TrimSpace ''/data'')" by code_simp
  from C9_empty_target_directive
         [OF a b, of "testPlatform False 100" "[]" "initialContext emptyFs False" emptyFs False]
    a b
  show ?thesis by simp
qed

text \<open>
  C5. A plain exclude directive (a line that \<open>excludeRex\<close> matches and none of the forms
  tried before it) leaves exactly the patterns parsed from its argument; an extend
  directive leaves the former patterns followed by the parsed ones; and a plain exclude
  directive whose argument trims to nothing leaves no pattern. The directive returns
  unless a malformed pattern brings the messages to the maximum.
\<close>

theorem C5_exclude_replaces_extend_appends:
  "(excludeRex line = Some arg \<and> maxAgeRex line = None \<and> maxSizeRex line = None
      \<and> extendExcludeRex line = None \<and> processNonPathLine pf ctx line = Returns b c
     \<longrightarrow> b \<and> exclude c = parsedPatterns pf arg)
   \<and> (extendExcludeRex line = Some arg \<and> processNonPathLine pf ctx line = Returns b c
     \<longrightarrow> b \<and> exclude c = exclude ctx @ parsedPatterns pf arg)
   \<and> (excludeRex line = Some arg \<and> maxAgeRex line = None \<and> maxSizeRex line = None
      \<and> extendExcludeRex line = None \<and> TrimSpace arg = []
     \<longrightarrow> processNonPathLine pf ctx line = Returns True (print (OutExclude arg) (ctx\<lparr>exclude := []\<rparr>)))"
proof (intro conjI impI)
  assume a: "excludeRex line = Some arg \<and> maxAgeRex line = None \<and> maxSizeRex line = None
      \<and> extendExcludeRex line = None \<and> processNonPathLine pf ctx line = Returns b c"
  then have "(case parseExclude pf ctx arg False of
        Panics p c \<Rightarrow> Panics p c
      | Returns _ c \<Rightarrow> Returns True (print (OutExclude arg) c)) = Returns b c"
    using exclude_directive [of line arg pf ctx] by simp
  then obtain c' where "parseExclude pf ctx arg False = Returns () c'" "b" "c = print (OutExclude arg) c'"
    by (auto split: outcome.splits)
  then show "b" "exclude c = parsedPatterns pf arg"
    using parseExclude_exclude [of pf ctx arg False "()" c'] by simp_all
next
  assume a: "extendExcludeRex line = Some arg \<and> processNonPathLine pf ctx line = Returns b c"
  then have "(case parseExclude pf ctx arg True of
        Panics p c \<Rightarrow> Panics p c
      | Returns _ c \<Rightarrow> Returns True (print (OutExtendExclude arg) c)) = Returns b c"
    using extend_directive [of line arg pf ctx] by simp
  then obtain c' where "parseExclude pf ctx arg True = Returns () c'" "b" "c = print (OutExtendExclude arg) c'"
    by (auto split: outcome.splits)
  then show "b" "exclude c = exclude ctx @ parsedPatterns pf arg"
    using parseExclude_exclude [of pf ctx arg True "()" c'] by simp_all
next
  assume a: "excludeRex line = Some arg \<and> maxAgeRex line = None \<and> maxSizeRex line = None
      \<and> extendExcludeRex line = None \<and> TrimSpace arg = []"
  then show "processNonPathLine pf ctx line = Returns True (print (OutExclude arg) (ctx\<lparr>exclude := []\<rparr>))"
    using exclude_directive [of line arg pf ctx] by (simp add: parseExclude_clear)
qed


theorem C5_exclude_replaces_extend_appends_witness:
  "exclude afterLog = [LiteralRegexp False ''.log'' True]
   \<and> exclude (ctxOf (processNonPathLine (testPlatform False 100) afterLog (''!+ '' @ tmpPattern)))
       = [LiteralRegexp False ''.log'' True, LiteralRegexp False ''.tmp'' True]
   \<and> exclude (ctxOf (processNonPathLine (testPlatform False 100) afterLog (''! '' @ tmpPattern)))
       = [LiteralRegexp False ''.tmp'' True]
   \<and> processNonPathLine (testPlatform False 100) afterLog ''!''
       = Returns True (print (OutExclude []) (afterLog\<lparr>exclude := []\<rparr>))
   \<and> exclude (ctxOf (configLoop (testPlatform False 100)
                       [''! '' @ logPattern, ''!+ '' @ tmpPattern] (initialContext emptyFs False)))
       = [LiteralRegexp False ''.log'' True, LiteralRegexp False ''.tmp'' True]
   \<and> exclude (ctxOf (configLoop (testPlatform False 100)
                       [''! '' @ logPattern, ''! '' @ tmpPattern] (initialContext emptyFs False)))
       = [LiteralRegexp False ''.tmp'' True]"
proof -
  let ?pf = "testPlatform False 100"
  have plain: "excludeRex (''! '' @ tmpPattern) = Some tmpPattern
      \<and> maxAgeRex (''! '' @ tmpPattern) = None \<and> maxSizeRex (''! '' @ tmpPattern) = None
      \<and> extendExcludeRex (''! '' @ tmpPattern) = None
      \<and> processNonPathLine ?pf afterLog (''! '' @ tmpPattern)
          = Returns True (ctxOf (processNonPathLine ?pf afterLog (''! '' @ tmpPattern)))"
    by code_simp
  have ext: "extendExcludeRex (''!+ '' @ tmpPattern) = Some tmpPattern
      \<and> processNonPathLine ?pf afterLog (''!+ '' @ tmpPattern)
          = Returns True (ctxOf (processNonPathLine ?pf afterLog (''!+ '' @ tmpPattern)))"
    by code_simp
  have clear: "excludeRex ''!'' = Some [] \<and> maxAgeRex ''!'' = None \<and> maxSizeRex ''!'' = None
      \<and> extendExcludeRex ''!'' = None \<and> TrimSpace [] = []"
    by code_simp
  have pats: "parsedPatterns ?pf tmpPattern = [LiteralRegexp False ''.tmp'' True]"
    by code_simp
  have first: "exclude afterLog = [LiteralRegexp False ''.log'' True]"
    by code_simp
  have a: "exclude (ctxOf (processNonPathLine ?pf afterLog (''! '' @ tmpPattern)))
             = parsedPatterns ?pf tmpPattern"
    using C5_exclude_replaces_extend_appends
            [of "''! '' @ tmpPattern" tmpPattern ?pf afterLog True
                 "ctxOf (processNonPathLine ?pf afterLog (''! '' @ tmpPattern))"] plain
    by blast
  have b: "exclude (ctxOf (processNonPathLine ?pf afterLog (''!+ '' @ tmpPattern)))
             = exclude afterLog @ parsedPatterns ?pf tmpPattern"
    using C5_exclude_replaces_extend_appends
            [of "''!+ '' @ tmpPattern" tmpPattern ?pf afterLog True
                 "ctxOf (processNonPathLine ?pf afterLog (''!+ '' @ tmpPattern))"] ext
    by blast
  have c: "processNonPathLine ?pf afterLog ''!''
             = Returns True (print (OutExclude []) (afterLog\<lparr>exclude := []\<rparr>))"
    using C5_exclude_replaces_extend_appends
            [of "''!''" "[]" ?pf afterLog] clear by blast
  have loops: "exclude (ctxOf (configLoop ?pf [''! '' @ logPattern, ''!+ '' @ tmpPattern]
                                  (initialContext emptyFs False)))
       = [LiteralRegexp False ''.log'' True, LiteralRegexp False ''.tmp'' True]
   \<and> exclude (ctxOf (configLoop ?pf [''! '' @ logPattern, ''! '' @ tmpPattern]
                                  (initialContext emptyFs False)))
       = [LiteralRegexp False ''.tmp'' True]"
    by code_simp
  from first a b c pats loops show ?thesis by simp
qed

text \<open>
  C7. During a walk every directory, the root included, is tested with a trailing
  separator against the exclude patterns. A directory that matches is pruned: the walk of
  it returns at once with the context unchanged, whatever is below it. A directory that
  does not match is counted. At the end of a walk the directory counter has grown by the
  number of times the callback met a directory that is not below a pruned one and does not
  match, and \<open>handleDir\<close> starts the counter at 0.
\<close>

theorem C7_excluded_directories_are_pruned:
  "(excluded pf ctx path \<longrightarrow> walkNode pf (DirNode path readErr ents) ctx = Returns () ctx)
   \<and> (\<not> excluded pf ctx path
        \<longrightarrow> dir (count ctx) < dir (count (ctxOf (walkNode pf (DirNode path readErr ents) ctx))))
   \<and> (walkNode pf n ctx = Returns v c \<longrightarrow> dir (count c) = dir (count ctx) + dirVisits pf ctx n)
   \<and> (handleDir pf ctx root = Returns v' c'
        \<longrightarrow> dir (count c') = dirVisits pf ctx (walkDir pf (fsys ctx) root))
   \<and> excluded pf ctx path
       = list_ex (\<lambda>rex. MatchString pf rex (path @ [Separator pf])) (exclude ctx)"
  using walkNode_pruned [of pf ctx path readErr ents]
    walkNode_counts_directory [of pf ctx path readErr ents]
    walkNode_dir_count [of pf n ctx v c] handleDir_dir_count [of pf ctx root v' c']
  by (simp add: excluded_def)

theorem C7_excluded_directories_are_pruned_witness:
  "excluded (testPlatform False 100) d5Context ''/d5/d6''
   \<and> walkNode (testPlatform False 100)
         (DirNode ''/d5/d6'' False [FileNode ''/d5/d6/f1'' (Some (regular 100 90))]) d5Context
       = Returns () d5Context
   \<and> \<not> excluded (testPlatform False 100) d5Context ''/d5''
   \<and> dir (count d5Context) < dir (count (ctxOf (walkNode (testPlatform False 100) d5Tree d5Context)))
   \<and> dir (count (ctxOf (walkNode (testPlatform False 100) d5Tree d5Context))) = 1
   \<and> dir (count (ctxOf (handleDir (testPlatform False 100) d5Context ''/d5''))) = 1"
proof -
  let ?pf = "testPlatform False 100"
  have ex: "excluded ?pf d5Context ''/d5/d6''" by code_simp
  have nex: "\<not> excluded ?pf d5Context ''/d5''" by code_simp
  have tree: "d5Tree = DirNode ''/d5'' False
       [FileNode ''/d5/f1'' (Some (regular 100 90)),
        FileNode ''/d5/f5'' (Some (regular 100 90)),
        DirNode ''/d5/d6'' False [FileNode ''/d5/d6/f1'' (Some (regular 100 90))]]"
    by (simp add: d5Tree_def)
  have ret: "walkNode ?pf d5Tree d5Context = Returns () (ctxOf (walkNode ?pf d5Tree d5Context))"
    by code_simp
  have retd: "handleDir ?pf d5Context ''/d5''
               = Returns () (ctxOf (handleDir ?pf d5Context ''/d5''))"
    by code_simp
  have visits: "dirVisits ?pf d5Context d5Tree = 1"
       "dirVisits ?pf d5Context (walkDir ?pf (fsys d5Context) ''/d5'') = 1"
       "dir (count d5Context) = 0"
    by code_simp+
  note inst = C7_excluded_directories_are_pruned [where pf = ?pf and ctx = d5Context]
  have a: "walkNode ?pf (DirNode ''/d5/d6'' False [FileNode ''/d5/d6/f1'' (Some (regular 100 90))])
             d5Context = Returns () d5Context"
    using inst [where path = "''/d5/d6''" and readErr = False
                 and ents = "[FileNode ''/d5/d6/f1'' (Some (regular 100 90))]"] ex
    by blast
  have b: "dir (count d5Context) < dir (count (ctxOf (walkNode ?pf d5Tree d5Context)))"
    using inst [where path = "''/d5''" and readErr = False
                 and ents = "[FileNode ''/d5/f1'' (Some (regular 100 90)),
        FileNode ''/d5/f5'' (Some (regular 100 90)),
        DirNode ''/d5/d6'' False [FileNode ''/d5/d6/f1'' (Some (regular 100 90))]]"] nex
    unfolding tree [symmetric] by blast
  have c: "dir (count (ctxOf (walkNode ?pf d5Tree d5Context)))
             = dir (count d5Context) + dirVisits ?pf d5Context d5Tree"
    using inst [where n = d5Tree and v = "()" and c = "ctxOf (walkNode ?pf d5Tree d5Context)"] ret
    by blast
  have d: "dir (count (ctxOf (handleDir ?pf d5Context ''/d5'')))
             = dirVisits ?pf d5Context (walkDir ?pf (fsys d5Context) ''/d5'')"
    using inst [where root = "''/d5''" and v' = "()"
                 and c' = "ctxOf (handleDir ?pf d5Context ''/d5'')"] retd
    by blast
  from ex nex a b c d visits show ?thesis by simp
qed

text \<open>
  C2. With a positive maximum: the \<open>msg\<close> that brings the number of messages to the maximum
  panics. When the loop over the configuration is left by that panic, exactly the maximum
  number of messages is recorded, and \<open>Backup\<close> returns that number and the context of the
  panic with the report added, whatever lines follow in the configuration; the entries
  that follow in a walk are not visited either. A loop that returns has recorded fewer
  messages than the maximum.
\<close>

theorem C2_abort_at_maximum:
  assumes cap: "0 < maxErrors pf"
  shows "(maxErrors pf \<le> int (length (msgs ctx)) + 1
            \<longrightarrow> msg pf ctx m = Panics TooManyErrors (ctx\<lparr>msgs := msgs ctx @ [m]\<rparr>))
     \<and> (configLoop pf config (initialContext w dry) = Panics TooManyErrors c
          \<longrightarrow> int (length (msgs c)) = maxErrors pf
            \<and> Backup pf (config @ later) w dry
                = (Some (NErrors (nat (maxErrors pf))),
                   c\<lparr>out := out c @ OutRecovered TooManyErrors # OutErrors (nat (maxErrors pf))
                                # map OutMessage (msgs c)\<rparr>))
     \<and> (configLoop pf config (initialContext w dry) = Returns ev c'
          \<longrightarrow> int (length (msgs c')) < maxErrors pf)
     \<and> (walkNodes pf ns ctx' = Panics p c'' \<longrightarrow> walkNodes pf (ns @ ns') ctx' = Panics p c'')"
proof (intro conjI impI)
  assume "maxErrors pf \<le> int (length (msgs ctx)) + 1"
  then show "msg pf ctx m = Panics TooManyErrors (ctx\<lparr>msgs := msgs ctx @ [m]\<rparr>)"
    by (simp add: msg_cases)
next
  assume run: "configLoop pf config (initialContext w dry) = Panics TooManyErrors c"
  from configLoop_cap [OF initial_underCap [OF cap], of config w dry] run
  show len: "int (length (msgs c)) = maxErrors pf" by (simp add: atCap_def)
  with cap have ne: "msgs c \<noteq> []" and n: "length (msgs c) = nat (maxErrors pf)" by auto
  from configLoop_stops [OF run, of later]
  show "Backup pf (config @ later) w dry
                = (Some (NErrors (nat (maxErrors pf))),
                   c\<lparr>out := out c @ OutRecovered TooManyErrors # OutErrors (nat (maxErrors pf))
                                # map OutMessage (msgs c)\<rparr>)"
    using ne n by (simp add: Backup_def deferred_def)
next
  assume "configLoop pf config (initialContext w dry) = Returns ev c'"
  with configLoop_cap [OF initial_underCap [OF cap], of config w dry]
  show "int (length (msgs c')) < maxErrors pf" by (simp add: underCap_def)
next
  assume "walkNodes pf ns ctx' = Panics p c''"
  then show "walkNodes pf (ns @ ns') ctx' = Panics p c''" by (rule walkNodes_stops)
qed

theorem C2_abort_at_maximum_witness:
  "0 < maxErrors (testPlatform False 2)
   \<and> int (length (msgs (ctxOf (configLoop (testPlatform False 2) (take 7 configErrors)
                                  (initialContext errorsFs False))))) = 2
   \<and> fst (Backup (testPlatform False 2) configErrors errorsFs False) = Some (NErrors 2)
   \<and> calls (snd (Backup (testPlatform False 2) configErrors errorsFs False)) = []
   \<and> fst (Backup (testPlatform False 100) configErrors errorsFs False) = Some (NErrors 4)"
proof -
  let ?pf = "testPlatform False 2"
  let ?c = "ctxOf (configLoop ?pf (take 7 configErrors) (initialContext errorsFs False))"
  have cap: "0 < maxErrors ?pf" by code_simp
  have run: "configLoop ?pf (take 7 configErrors) (initialContext errorsFs False)
               = Panics TooManyErrors ?c"
    by code_simp
  have split: "take 7 configErrors @ drop 7 configErrors = configErrors" by simp
  have mx: "nat (maxErrors ?pf) = 2" "maxErrors ?pf = 2" by code_simp+
  have nocalls: "calls ?c = []" by code_simp
  have four: "fst (Backup (testPlatform False 100) configErrors errorsFs False) = Some (NErrors 4)"
    by code_simp
  from C2_abort_at_maximum [OF cap, where config = "take 7 configErrors" and w = errorsFs and dry = False
             and c = ?c and later = "drop 7 configErrors"] run
  have "int (length (msgs ?c)) = maxErrors ?pf
      \<and> Backup ?pf (take 7 configErrors @ drop 7 configErrors) errorsFs False
          = (Some (NErrors (nat (maxErrors ?pf))),
             ?c\<lparr>out := out ?c @ OutRecovered TooManyErrors # OutErrors (nat (maxErrors ?pf))
                                # map OutMessage (msgs ?c)\<rparr>)"
    by blast
  then show ?thesis unfolding split mx using cap nocalls four by simp
qed





text \<open>
  C6. A file whose destination exists and is not older than it is skipped: no slot is
  called, the filesystem stays as it is and the file is not counted as copied.
  Consequently the second of two runs copies nothing. The first run is not a dry run and
  reports no error; the slots keep modification times (\<open>writesKeepTimes\<close>: a copy that
  succeeds leaves the destination no older than the source, and no write makes another
  path older or missing); the sources are unchanged (\<open>sourcesKept\<close>: after the first run
  every source is found as the first run found it, and the clock has not gone back). Then
  a run of the same configuration on the filesystem the first run has left, dry or not,
  calls no slot, changes nothing, and reports zero copied files. The witness runs a
  configuration twice on the in-memory filesystem: the first run copies three files, the
  second none.
\<close>

theorem C6_second_run_copies_nothing:
  "(stat pf (fsys ctx) (destPathOf pf (targetPath ctx) srcPath) = Some destInfo
      \<and> \<not> ModTime destInfo < ModTime srcInfo
     \<longrightarrow> calls (ctxOf (handleFile pf ctx srcPath srcInfo)) = calls ctx
       \<and> fsys (ctxOf (handleFile pf ctx srcPath srcInfo)) = fsys ctx
       \<and> copied (count (ctxOf (handleFile pf ctx srcPath srcInfo))) = copied (count ctx))
   \<and> (writesKeepTimes pf \<and> printDotFileCount pf \<noteq> 0
      \<and> fst (Backup pf config w False) = None
      \<and> sourcesKept pf (fsys (snd (Backup pf config w False))) config (initialContext w False)
     \<longrightarrow> calls (snd (Backup pf config (fsys (snd (Backup pf config w False))) dry)) = []
       \<and> fsys (snd (Backup pf config (fsys (snd (Backup pf config w False))) dry))
           = fsys (snd (Backup pf config w False))
       \<and> copied (count (snd (Backup pf config (fsys (snd (Backup pf config w False))) dry))) = 0
       \<and> list_all reportsNoCopy
             (out (snd (Backup pf config (fsys (snd (Backup pf config w False))) dry))))"
proof (intro conjI impI)
  assume "stat pf (fsys ctx) (destPathOf pf (targetPath ctx) srcPath) = Some destInfo
      \<and> \<not> ModTime destInfo < ModTime srcInfo"
  then show "calls (ctxOf (handleFile pf ctx srcPath srcInfo)) = calls ctx"
    "fsys (ctxOf (handleFile pf ctx srcPath srcInfo)) = fsys ctx"
    "copied (count (ctxOf (handleFile pf ctx srcPath srcInfo))) = copied (count ctx)"
    by (simp_all add: handleFile_alt)
next
  let ?w1 = "fsys (snd (Backup pf config w False))"
  assume "writesKeepTimes pf \<and> printDotFileCount pf \<noteq> 0
      \<and> fst (Backup pf config w False) = None
      \<and> sourcesKept pf ?w1 config (initialContext w False)"
  then have "upToDate pf config (initialContext ?w1 dry)"
    by (intro first_run_leaves_upToDate) simp_all
  then have "nothingCopied ?w1 (snd (Backup pf config ?w1 dry))"
    by (rule nothingCopied_Backup)
  then show "calls (snd (Backup pf config ?w1 dry)) = []"
    "fsys (snd (Backup pf config ?w1 dry)) = ?w1"
    "copied (count (snd (Backup pf config ?w1 dry))) = 0"
    "list_all reportsNoCopy (out (snd (Backup pf config ?w1 dry)))"
    by (simp_all add: nothingCopied_def)
qed

theorem C6_second_run_copies_nothing_witness:
  "writesKeepTimes (testPlatform False 100)
   \<and> fst (Backup (testPlatform False 100) docsConfig docsFs False) = None
   \<and> length (calls (snd (Backup (testPlatform False 100) docsConfig docsFs False))) = 6
   \<and> copied (count (snd (Backup (testPlatform False 100) docsConfig docsFs False))) = 3
   \<and> sourcesKept (testPlatform False 100)
        (fsys (snd (Backup (testPlatform False 100) docsConfig docsFs False))) docsConfig
        (initialContext docsFs False)
   \<and> calls (snd (Backup (testPlatform False 100) docsConfig
                   (fsys (snd (Backup (testPlatform False 100) docsConfig docsFs False)))
                   False)) = []
   \<and> copied (count (snd (Backup (testPlatform False 100) docsConfig
                   (fsys (snd (Backup (testPlatform False 100) docsConfig docsFs False)))
                   False))) = 0
   \<and> out (snd (Backup (testPlatform False 100) docsConfig
                   (fsys (snd (Backup (testPlatform False 100) docsConfig docsFs False)))
                   False))
       = [OutTarget ''/backup'', OutSource ''/docs'', OutCounts 1 2 0, OutSource ''/notes'']
   \<and> stat (testPlatform False 100)
        (fsys (snd (Backup (testPlatform False 100) docsConfig docsFs False))) ''/backup/notes''
       = Some ((regular 10 70)\<lparr>Mode := 0x1B0\<rparr>)
   \<and> calls (ctxOf (handleFile (testPlatform False 100)
                   ((initialContext
                       (fsys (snd (Backup (testPlatform False 100) docsConfig docsFs False)))
                       False)\<lparr>targetPath := ''/backup''\<rparr>)
                   ''/notes'' (regular 10 70))) = []"
proof -
  let ?pf = "testPlatform False 100"
  let ?w1 = "fsys (snd (Backup ?pf docsConfig docsFs False))"
  let ?ctx = "(initialContext ?w1 False :: (literalRegexp, memfs) backupContext)
                \<lparr>targetPath := ''/backup''\<rparr>"
  let ?d = "(regular 10 70)\<lparr>Mode := 0x1B0\<rparr>"
  have there: "stat ?pf ?w1 ''/backup/notes'' = Some ?d" by code_simp
  have dest: "stat ?pf (fsys ?ctx) (destPathOf ?pf (targetPath ?ctx) ''/notes'') = Some ?d
     \<and> \<not> ModTime ?d < ModTime (regular 10 70)"
    by code_simp
  have skipped: "calls (ctxOf (handleFile ?pf ?ctx ''/notes'' (regular 10 70))) = calls ?ctx"
    by (rule C6_second_run_copies_nothing
               [where pf = ?pf and ctx = ?ctx and srcPath = "''/notes''"
                  and srcInfo = "regular 10 70" and destInfo = ?d,
                THEN conjunct1, THEN mp, OF dest, THEN conjunct1])
  have none: "calls ?ctx = []" by (simp add: initialContext_def)
  have contract: "writesKeepTimes ?pf" by (rule memfs_writesKeepTimes)
  have dots: "printDotFileCount ?pf \<noteq> 0" by (simp add: testPlatform_def)
  have first: "fst (Backup ?pf docsConfig docsFs False) = None
     \<and> length (calls (snd (Backup ?pf docsConfig docsFs False))) = 6
     \<and> copied (count (snd (Backup ?pf docsConfig docsFs False))) = 3"
    by code_simp
  have kept: "sourcesKept ?pf ?w1 docsConfig (initialContext docsFs False)"
    by code_simp
  have printed: "out (snd (Backup ?pf docsConfig ?w1 False))
       = [OutTarget ''/backup'', OutSource ''/docs'', OutCounts 1 2 0, OutSource ''/notes'']"
    by code_simp
  from C6_second_run_copies_nothing
         [where pf = ?pf and config = docsConfig and w = docsFs and dry = False]
       contract dots first kept
  have "calls (snd (Backup ?pf docsConfig ?w1 False)) = []
       \<and> copied (count (snd (Backup ?pf docsConfig ?w1 False))) = 0"
    by blast
  with contract first kept printed there skipped none show ?thesis by simp
qed

end
